(* ===== verification/Prelude_Go.thy ===== *)
theory Prelude_Go
  imports Complex_Main "HOL-Library.Word" "HOL-Library.AList" "HOL-Library.Multiset"
    "HOL-Library.State_Monad" "HOL-Library.Sublist" "HOL-Library.Log_Nat"
begin

text \<open>
  Shared vocabulary of the development: Go's integer widths, Go maps as association lists, the
  state monad the handlers run in, and the two loop shapes the handlers use. The collections
  \<open>go_map_simps\<close>, \<open>run_simps\<close> and \<open>keeps_intros\<close> carry the proofs of the component theories:
  lookup and update laws, unfolding of a monadic run, and composition of state invariants.
\<close>

named_theorems go_map_simps \<open>lookup, insertion and deletion laws of Go maps\<close>
named_theorems run_simps \<open>running the state monad one statement at a time\<close>
named_theorems keeps_intros \<open>a state predicate is kept by a statement\<close>

section \<open>Integers\<close>

text \<open>
  Go's \<open>int64\<close> quantities that the code adds and subtracts (millicores) are 64-bit words, read as
  signed with \<open>sint\<close>. Go's \<open>int\<close> (64 bits on the platforms the image is built for) is kept as an
  integer, with \<open>wrap64\<close> written where the code does arithmetic on it.
\<close>

type_synonym int64 = "64 word"

definition max_int64 :: int where
  "max_int64 = 9223372036854775807"

definition wrap64 :: "int \<Rightarrow> int" where
  "wrap64 n = signed_take_bit 63 n"

lemma wrap64_id: "- (2 ^ 63) \<le> n \<Longrightarrow> n < 2 ^ 63 \<Longrightarrow> wrap64 n = n"
  by (simp add: wrap64_def signed_take_bit_int_eq_self)

lemma wrap64_max: "wrap64 (max_int64 + 1) = - (2 ^ 63)"
  by (simp add: wrap64_def max_int64_def)

declare of_int_sint [simp del]

lemma sint64_of_int: "- (2 ^ 63) \<le> n \<Longrightarrow> n < 2 ^ 63 \<Longrightarrow> sint (word_of_int n :: int64) = n"
  by (simp add: sint_sbintrunc' signed_take_bit_int_eq_self)

lemma sint64_ge: "- (2 ^ 63) \<le> sint (w :: int64)"
  using sint_ge [of w] by simp

lemma sint64_lt: "sint (w :: int64) < 2 ^ 63"
  using sint_lt [of w] by simp

section \<open>Go maps\<close>

text \<open>
  A Go map is an association list with distinct keys. Lookup is \<open>map_of\<close>, assignment is
  \<open>AList.update\<close>, \<open>delete\<close> is \<open>AList.delete\<close>. The list order has no meaning of its own: where
  the code ranges over a map and the order can matter, the definition takes the order as an
  argument or asks the environment for it.
\<close>

type_synonym ('k, 'v) gomap = "('k \<times> 'v) list"

abbreviation gm_get :: "('k, 'v) gomap \<Rightarrow> 'k \<Rightarrow> 'v option" where
  "gm_get \<equiv> map_of"

abbreviation gm_put :: "'k \<Rightarrow> 'v \<Rightarrow> ('k, 'v) gomap \<Rightarrow> ('k, 'v) gomap" where
  "gm_put \<equiv> AList.update"

abbreviation gm_del :: "'k \<Rightarrow> ('k, 'v) gomap \<Rightarrow> ('k, 'v) gomap" where
  "gm_del \<equiv> AList.delete"

abbreviation gm_keys :: "('k, 'v) gomap \<Rightarrow> 'k list" where
  "gm_keys \<equiv> map fst"

abbreviation gm_ok :: "('k, 'v) gomap \<Rightarrow> bool" where
  "gm_ok m \<equiv> distinct (map fst m)"

text \<open>Reading a missing key of a map of strings yields the zero value, the empty string.\<close>

definition gm_str :: "('k, string) gomap \<Rightarrow> 'k \<Rightarrow> string" where
  "gm_str m k = (case map_of m k of None \<Rightarrow> '''' | Some v \<Rightarrow> v)"

lemma gm_get_put [simp, go_map_simps]: "map_of (gm_put k v m) = (map_of m)(k \<mapsto> v)"
  by (rule update_conv')

lemma gm_get_del [simp, go_map_simps]: "map_of (gm_del k m) = (map_of m)(k := None)"
  by (rule delete_conv')

lemma gm_ok_put [simp, go_map_simps]: "gm_ok m \<Longrightarrow> gm_ok (gm_put k v m)"
  by (rule distinct_update)

lemma gm_ok_del [simp, go_map_simps]: "gm_ok m \<Longrightarrow> gm_ok (gm_del k m)"
  by (rule distinct_delete)

lemma set_eq_lookup: "gm_ok m \<Longrightarrow> set m = {(k, v). map_of m k = Some v}"
  by (auto dest: map_of_SomeD)

lemma gm_all_iff: "gm_ok m \<Longrightarrow> (\<forall>(k, v) \<in> set m. P k v) \<longleftrightarrow> (\<forall>k v. map_of m k = Some v \<longrightarrow> P k v)"
  using map_of_eq_Some_iff [of m] by auto

declare map_of_eq_Some_iff [simp del]

text \<open>The order of a range over a map: any rearrangement of the entries.\<close>

type_synonym 'a order = "'a list \<Rightarrow> 'a list"

definition is_order :: "'a order \<Rightarrow> bool" where
  "is_order ord \<longleftrightarrow> (\<forall>xs. mset (ord xs) = mset xs)"

lemma set_order: "is_order ord \<Longrightarrow> set (ord xs) = set xs"
  by (metis is_order_def set_mset_mset)

lemma distinct_order: "is_order ord \<Longrightarrow> distinct (ord xs) = distinct xs"
  by (metis is_order_def mset_eq_imp_distinct_iff)

lemma map_of_map_snd: "map_of (map (\<lambda>(k, v). (k, f v)) m) k = map_option f (map_of m k)"
  by (induction m) auto

lemma keys_map_snd: "map fst (map (\<lambda>(k, v). (k, f v)) m) = map fst m"
  by (induction m) auto

lemma find_append: "find P (xs @ ys) = (case find P xs of Some x \<Rightarrow> Some x | None \<Rightarrow> find P ys)"
  by (induction xs) auto

lemma distinct_map_imp_distinct: "distinct (map f xs) \<Longrightarrow> distinct xs"
  by (simp add: distinct_map)

text \<open>The sum of a weight over the values of a map's entries, in any commutative group.\<close>

definition entries_total :: "('v \<Rightarrow> 'g::ab_group_add) \<Rightarrow> ('k \<times> 'v) list \<Rightarrow> 'g" where
  "entries_total w es = sum_list (map (\<lambda>(k, v). w v) es)"

text \<open>
  The contract of a Go map, as the components that account over a map's values use it: what a
  lookup returns after an assignment or a deletion, and that the entries are exactly the lookups.
\<close>

locale go_map =
  fixes lookup :: "'m \<Rightarrow> 'k \<Rightarrow> 'v option"
    and put :: "'k \<Rightarrow> 'v \<Rightarrow> 'm \<Rightarrow> 'm"
    and del :: "'k \<Rightarrow> 'm \<Rightarrow> 'm"
    and entries :: "'m \<Rightarrow> ('k \<times> 'v) list"
    and ok :: "'m \<Rightarrow> bool"
  assumes lookup_put: "ok m \<Longrightarrow> lookup (put k v m) = (lookup m)(k \<mapsto> v)"
    and lookup_del: "ok m \<Longrightarrow> lookup (del k m) = (lookup m)(k := None)"
    and ok_put: "ok m \<Longrightarrow> ok (put k v m)"
    and ok_del: "ok m \<Longrightarrow> ok (del k m)"
    and entries_distinct: "ok m \<Longrightarrow> distinct (entries m)"
    and entries_lookup: "ok m \<Longrightarrow> set (entries m) = {(k, v). lookup m k = Some v}"
begin

abbreviation total :: "('v \<Rightarrow> 'g::ab_group_add) \<Rightarrow> 'm \<Rightarrow> 'g" where
  "total w m \<equiv> entries_total w (entries m)"

lemma total_sum: "ok m \<Longrightarrow> total w m = (\<Sum>(k, v) \<in> {(k, v). lookup m k = Some v}. w v)"
  by (simp add: entries_total_def entries_distinct sum_list_distinct_conv_sum_set entries_lookup)

lemma finite_lookups: "ok m \<Longrightarrow> finite {(k, v). lookup m k = Some v}"
  by (simp flip: entries_lookup)

lemma lookups_del: "ok m \<Longrightarrow> lookup m k = Some u \<Longrightarrow>
  {(k', v). lookup m k' = Some v} = insert (k, u) {(k', v). lookup (del k m) k' = Some v}"
  by (auto simp: lookup_del split: if_splits)

lemma lookups_put: "ok m \<Longrightarrow>
  {(k', v'). lookup (put k v m) k' = Some v'} = insert (k, v) {(k', v'). lookup (del k m) k' = Some v'}"
  by (auto simp: lookup_del lookup_put split: if_splits)

lemma total_del:
  assumes "ok m" and "lookup m k = Some u"
  shows "total w (del k m) = total w m - w u"
  using assms finite_lookups [OF ok_del [OF assms(1)], of k]
  by (simp add: total_sum ok_del lookups_del [OF assms]) (simp add: lookup_del)

lemma total_put:
  assumes "ok m"
  shows "total w (put k v m) = total w (del k m) + w v"
  using assms finite_lookups [OF ok_del [OF assms], of k]
  by (simp add: total_sum ok_put ok_del lookups_put) (simp add: lookup_del add.commute)

lemma total_del_absent:
  assumes "ok m" and "lookup m k = None"
  shows "total w (del k m) = total w m"
proof -
  have "lookup (del k m) = lookup m"
    using assms by (simp add: lookup_del fun_upd_idem)
  then show ?thesis using assms(1) by (simp add: total_sum ok_del)
qed

lemma total_put_new: "ok m \<Longrightarrow> lookup m k = None \<Longrightarrow> total w (put k v m) = total w m + w v"
  by (simp add: total_put total_del_absent)

lemma total_put_old:
  "ok m \<Longrightarrow> lookup m k = Some u \<Longrightarrow> total w (put k v m) = total w m - w u + w v"
  by (simp add: total_put total_del)

end

interpretation gm: go_map "map_of :: ('k, 'v) gomap \<Rightarrow> _" gm_put gm_del "\<lambda>m. m" "\<lambda>m. distinct (map fst m)"
  proof unfold_locales
  fix m :: "('k, 'v) gomap"
  assume "gm_ok m"
  then show "distinct m" by (rule distinct_map_imp_distinct)
  from \<open>gm_ok m\<close> show "set m = {(k, v). map_of m k = Some v}" by (rule set_eq_lookup)
qed simp_all

section \<open>Handlers\<close>

text \<open>
  A handler is a computation in the state monad. \<open>for_each\<close> is Go's \<open>for range\<close> over a slice, with
  \<open>continue\<close> as the end of the body; \<open>for_until\<close> is one whose body may return a value from the
  enclosing function.
\<close>

primrec for_each :: "('x \<Rightarrow> ('s, unit) state) \<Rightarrow> 'x list \<Rightarrow> ('s, unit) state" where
  "for_each body [] = State_Monad.return ()"
| "for_each body (x # xs) = State_Monad.bind (body x) (\<lambda>_. for_each body xs)"

primrec for_until :: "('x \<Rightarrow> ('s, 'r option) state) \<Rightarrow> 'x list \<Rightarrow> ('s, 'r option) state" where
  "for_until body [] = State_Monad.return None"
| "for_until body (x # xs) = State_Monad.bind (body x)
     (\<lambda>r. case r of Some v \<Rightarrow> State_Monad.return (Some v) | None \<Rightarrow> for_until body xs)"

lemma run_update [run_simps, simp]: "run_state (State_Monad.update f) s = ((), f s)"
  by (simp add: State_Monad.update_def)

text \<open>
  What a handler may do to the state, as a relation between the states before and after: a
  reflexive and transitive relation kept by the parts of a handler is kept by the handler.
\<close>

locale frame =
  fixes R :: "'s \<Rightarrow> 's \<Rightarrow> bool"
  assumes R_refl: "R s s" and R_trans: "R s t \<Longrightarrow> R t u \<Longrightarrow> R s u"
begin

abbreviation keeps :: "('s, 'a) state \<Rightarrow> bool" where
  "keeps m \<equiv> state_io_rel R m"

lemma keepsI: "(\<And>s. R s (snd (run_state m s))) \<Longrightarrow> keeps m"
  by (simp add: state_io_rel_def)

lemma keepsD: "keeps m \<Longrightarrow> R s (snd (run_state m s))"
  by (simp add: state_io_rel_def)

lemma keeps_return [keeps_intros]: "keeps (State_Monad.return x)"
  by (simp add: state_io_rel_def R_refl)

lemma keeps_get [keeps_intros]: "keeps State_Monad.get"
  by (simp add: state_io_rel_def R_refl)

lemma keeps_update: "(\<And>s. R s (f s)) \<Longrightarrow> keeps (State_Monad.update f)"
  by (simp add: state_io_rel_def)

lemma keeps_bind [keeps_intros]:
  assumes "keeps m" and "\<And>x. keeps (f x)"
  shows "keeps (State_Monad.bind m f)"
  using assms by (auto simp: state_io_rel_def split: prod.splits) (metis R_trans snd_conv)

lemma keeps_for_each [keeps_intros]:
  assumes "\<And>x. x \<in> set xs \<Longrightarrow> keeps (body x)"
  shows "keeps (for_each body xs)"
  using assms by (induction xs) (auto intro: keeps_return keeps_bind)

lemma keeps_for_until [keeps_intros]:
  assumes "\<And>x. x \<in> set xs \<Longrightarrow> keeps (body x)"
  shows "keeps (for_until body xs)"
  using assms by (induction xs) (auto intro!: keeps_return keeps_bind split: option.split)

lemma keeps_get_bind: "(\<And>s. R s (snd (run_state (f s) s))) \<Longrightarrow> keeps (State_Monad.bind State_Monad.get f)"
  by (simp add: state_io_rel_def)

end

text \<open>A predicate is kept when it holds afterwards if it held before.\<close>

definition inv_rel :: "('s \<Rightarrow> bool) \<Rightarrow> 's \<Rightarrow> 's \<Rightarrow> bool" where
  "inv_rel P s t \<longleftrightarrow> (P s \<longrightarrow> P t)"

lemma frame_inv_rel: "frame (inv_rel P)"
  by unfold_locales (simp_all add: inv_rel_def)

end
