(* ===== verification/McKube_Types.thy ===== *)
theory McKube_Types
  imports Prelude_Go
begin

text \<open>
  The data the controller works on. The McKube custom resource is translated from
  \<open>api/v1/mckube_types.go\<close>. Pods and nodes are types of the Kubernetes API (not part of this
  repository): the records below hold the fields the controller reads or writes. A nil Go map reads
  like an empty one, so labels and annotations are maps; a CPU quantity is its \<open>MilliValue\<close>, other
  quantities are their text.
\<close>

section \<open>The McKube resource\<close>

record RTSettings =
  Period :: int
  RuntimeLow :: int
  RuntimeHi :: int
  Core :: "string option"

record McKubeSpec =
  Node :: string
  PodName :: string
  Criticality :: string
  PressuredDeadlinesTotal :: int
  PressuredDeadlinesPeriod :: int
  RTSettings :: "RTSettings option"

record McKubeStatus =
  CurrentRuntime :: string
  LastOverrunTime :: "int option"
  AllocatedCore :: string

record McKube =
  mk_Name :: string
  mk_Namespace :: string
  mk_Finalizers :: "string list"
  mk_DeletionTimestamp :: "int option"
  Spec :: McKubeSpec
  Status :: McKubeStatus

section \<open>Kubernetes objects\<close>

record Container =
  c_Name :: string
  c_Requests :: "(string, int64) gomap option"
  c_Limits :: "(string, string) gomap"

record ContainerStatus =
  cs_Name :: string
  cs_ContainerID :: string

record Pod =
  pod_Name :: string
  pod_Namespace :: string
  pod_Labels :: "(string, string) gomap"
  pod_Annotations :: "(string, string) gomap"
  pod_DeletionTimestamp :: "int option"
  NodeName :: string
  Containers :: "Container list"
  Phase :: string
  HostIP :: string
  ContainerStatuses :: "ContainerStatus list"
  InitContainerStatuses :: "ContainerStatus list"

record NodeAddress =
  addr_Type :: string
  addr_Address :: string

record KNode =
  node_Name :: string
  node_Annotations :: "(string, string) gomap"
  node_Taints :: "string list"
  node_Addresses :: "NodeAddress list"

text \<open>
  The phases and the label key the code compares with; \<open>Requests.Cpu()\<close> of the Kubernetes library
  returns the zero quantity when there is no CPU request, never nil.
\<close>

definition PodPending :: string where "PodPending = ''Pending''"
definition PodRunning :: string where "PodRunning = ''Running''"
definition rt_label :: string where "rt_label = ''sdv.com''"

definition requests_cpu :: "(string, int64) gomap \<Rightarrow> int64" where
  "requests_cpu rs = (case map_of rs ''cpu'' of Some q \<Rightarrow> q | None \<Rightarrow> 0)"

section \<open>Errors\<close>

text \<open>
  A Go error the code distinguishes: what \<open>client.IgnoreNotFound\<close> and \<open>k8serrors.IsNotFound\<close>
  recognise, any other error of the API with its text, and the errors the code itself creates.
\<close>

datatype go_error =
    NotFound
  | ApiError string
  | NoAssignedNode
  | NoNodeIP
  | GetVictimFailed go_error
  | ListMcKubeFailed go_error
  | StatusUpdateFailed go_error
  | ListPodsFailed go_error
  | PostFailed string
  | BadStatus int

text \<open>
  The lookup every handler does on a list of McKube resources: the first one whose
  \<open>Spec.PodName\<close> is the pod's name.
\<close>

definition find_mckube :: "string \<Rightarrow> McKube list \<Rightarrow> McKube option" where
  "find_mckube podName items = find (\<lambda>m. PodName (Spec m) = podName) items"

lemma find_mckube_name: "find_mckube n ms = Some m \<Longrightarrow> PodName (Spec m) = n \<and> m \<in> set ms"
  by (auto simp: find_mckube_def find_Some_iff)

lemma find_mckube_None: "find_mckube n ms = None \<longleftrightarrow> (\<forall>m \<in> set ms. PodName (Spec m) \<noteq> n)"
  by (auto simp: find_mckube_def find_None_iff)

section \<open>Objects for concrete runs\<close>

definition demo_rt_pod :: Pod where
  "demo_rt_pod = \<lparr>pod_Name = ''p'', pod_Namespace = ''default'', pod_Labels = [(''sdv.com'', ''app'')],
     pod_Annotations = [], pod_DeletionTimestamp = None, NodeName = ''worker'',
     Containers = [\<lparr>c_Name = ''c'', c_Requests = Some [(''cpu'', 500)], c_Limits = []\<rparr>],
     Phase = ''Running'', HostIP = ''10.0.0.1'',
     ContainerStatuses = [\<lparr>cs_Name = ''c'', cs_ContainerID = ''containerd://abc''\<rparr>],
     InitContainerStatuses = []\<rparr>"

definition demo_mckube :: "string option \<Rightarrow> McKube" where
  "demo_mckube core = \<lparr>mk_Name = ''m'', mk_Namespace = ''default'', mk_Finalizers = [],
     mk_DeletionTimestamp = None,
     Spec = \<lparr>Node = ''worker'', PodName = ''p'', Criticality = ''Low'', PressuredDeadlinesTotal = 0,
       PressuredDeadlinesPeriod = 0,
       RTSettings = Some \<lparr>Period = 1000, RuntimeLow = 300, RuntimeHi = 500, Core = core\<rparr>\<rparr>,
     Status = \<lparr>CurrentRuntime = [], LastOverrunTime = None, AllocatedCore = []\<rparr>\<rparr>"

end
