(* ===== verification/Deep_Copy.thy ===== *)
theory Deep_Copy
  imports McKube_Types
begin

text \<open>
  The deep copies of the API types, \<open>api/v1/zz_generated.deepcopy.go\<close>, on an explicit store: the only
  part of the program whose purpose is what is shared and what is not. The controller's client hands
  out copies of the resources in its cache made by these functions, and the handlers then write to
  them. A pointer is an index into the list of cells and \<open>None\<close> is nil. The functions of the Kubernetes
  library they call are arguments, gathered in the record \<open>library\<close>, with the contract \<open>deep_copier\<close>.
\<close>

section \<open>The store\<close>

definition alloc :: "'c \<Rightarrow> ('c list, nat) state" where
  "alloc c = do { h \<leftarrow> State_Monad.get; State_Monad.update (\<lambda>h. h @ [c]); State_Monad.return (length h) }"

definition load :: "nat \<Rightarrow> ('c list, 'c) state" where
  "load p = do { h \<leftarrow> State_Monad.get; State_Monad.return (h ! p) }"

definition assign :: "nat \<Rightarrow> 'c \<Rightarrow> ('c list, unit) state" where
  "assign p c = State_Monad.update (\<lambda>h. h[p := c])"

lemma run_store [run_simps, simp]:
  "run_state (alloc c) h = (length h, h @ [c])" "run_state (load p) h = (h ! p, h)"
  "run_state (assign p c) h = ((), h[p := c])"
  by (simp_all add: alloc_def load_def assign_def)

text \<open>The store has grown, and of the old cells only those of \<open>Q\<close> may have changed.\<close>

definition grown :: "nat set \<Rightarrow> 'c list \<Rightarrow> 'c list \<Rightarrow> bool" where
  "grown Q h h' \<longleftrightarrow> length h \<le> length h' \<and> (\<forall>p < length h. p \<notin> Q \<longrightarrow> h' ! p = h ! p)"

lemma grown_refl [simp]: "grown Q h h"
  by (simp add: grown_def)

lemma grown_trans: "grown Q h h' \<Longrightarrow> grown Q h' h'' \<Longrightarrow> grown Q h h''"
  by (simp add: grown_def)

lemma grown_mono: "grown Q h h' \<Longrightarrow> Q \<subseteq> R \<Longrightarrow> grown R h h'"
  by (auto simp: grown_def)

lemma grown_append [simp]: "grown Q h (h @ cs)"
  by (simp add: grown_def nth_append)

lemma grown_assign: "p \<in> Q \<Longrightarrow> grown Q h (h[p := c])"
  by (metis grown_def length_list_update nth_list_update_neq order_refl)

lemma grown_length: "grown Q h h' \<Longrightarrow> length h \<le> length h'"
  by (simp add: grown_def)

section \<open>The contract of a deep copy\<close>

text \<open>
  What a thing of the program reaches (\<open>refs\<close>) and what it means (\<open>val\<close>) depend on the cells it reaches
  only; a copy means the same as the original, reaches new cells only, and changes no old cell.
\<close>

locale deep_copier =
  fixes copy :: "'x \<Rightarrow> ('c list, 'x) state"
    and refs :: "'c list \<Rightarrow> 'x \<Rightarrow> nat set"
    and val :: "'c list \<Rightarrow> 'x \<Rightarrow> 'v"
  assumes refs_local: "refs h x \<subseteq> {..<length h} \<Longrightarrow> length h \<le> length h' \<Longrightarrow>
      (\<And>p. p \<in> refs h x \<Longrightarrow> h' ! p = h ! p) \<Longrightarrow> refs h' x = refs h x"
    and val_local: "refs h x \<subseteq> {..<length h} \<Longrightarrow> length h \<le> length h' \<Longrightarrow>
      (\<And>p. p \<in> refs h x \<Longrightarrow> h' ! p = h ! p) \<Longrightarrow> val h' x = val h x"
    and copy_grown: "refs h x \<subseteq> {..<length h} \<Longrightarrow> grown {} h (snd (run_state (copy x) h))"
    and copy_val: "refs h x \<subseteq> {..<length h} \<Longrightarrow>
      val (snd (run_state (copy x) h)) (fst (run_state (copy x) h)) = val h x"
    and copy_fresh: "refs h x \<subseteq> {..<length h} \<Longrightarrow>
      refs (snd (run_state (copy x) h)) (fst (run_state (copy x) h))
        \<subseteq> {length h..<length (snd (run_state (copy x) h))}"
begin

lemma same_cells:
  assumes "refs h x \<subseteq> {..<length h}" and "length h \<le> length h'"
    and "\<And>p. p \<in> refs h x \<Longrightarrow> h' ! p = h ! p"
  shows "refs h' x = refs h x \<and> val h' x = val h x"
  using refs_local [OF assms] val_local [OF assms] by simp

lemma copied:
  assumes "refs h x \<subseteq> {..<length h}" and "run_state (copy x) h = (y, h')"
  shows "grown {} h h' \<and> val h' y = val h x \<and> refs h' y \<subseteq> {length h..<length h'}"
  using copy_grown [OF assms(1)] copy_val [OF assms(1)] copy_fresh [OF assms(1)] assms(2) by simp

lemma copied_in:
  assumes "refs h x \<subseteq> {..<length h}" and "run_state (copy x) h = (y, h')" and "q \<in> refs h' y"
  shows "length h \<le> q \<and> q < length h'"
  using copied [OF assms(1,2)] assms(3) by auto

lemma outside:
  assumes "refs h x \<subseteq> {..<length h}" and "grown Q h h'" and "Q \<inter> refs h x = {}"
  shows "refs h' x = refs h x" and "val h' x = val h x"
proof -
  have len: "length h \<le> length h'" by (rule grown_length [OF assms(2)])
  have same: "h' ! p = h ! p" if "p \<in> refs h x" for p
    using assms that unfolding grown_def by blast
  show "refs h' x = refs h x" by (rule refs_local [OF assms(1) len same])
  show "val h' x = val h x" by (rule val_local [OF assms(1) len same])
qed

text \<open>Whatever is written through the copy does not show in the original, nor the other way round.\<close>

lemma independent:
  assumes "refs h x \<subseteq> {..<length h}" and "run_state (copy x) h = (y, h')"
  shows "val h' y = val h x"
    and "q \<in> refs h' y \<Longrightarrow> val (h'[q := c]) x = val h x"
    and "q \<in> refs h x \<Longrightarrow> val (h'[q := c]) y = val h x"
proof -
  have g: "grown {} h h'" and v: "val h' y = val h x" and f: "refs h' y \<subseteq> {length h..<length h'}"
    using copied [OF assms] by simp_all
  show "val h' y = val h x" by (rule v)
  show "val (h'[q := c]) x = val h x" if "q \<in> refs h' y"
  proof -
    have "grown {q} h (h'[q := c])"
      using g by (auto intro: grown_trans [OF grown_mono [OF g]] grown_assign)
    then show ?thesis using outside(2) [OF assms(1), of "{q}"] assms(1) f that by fastforce
  qed
  show "val (h'[q := c]) y = val h x" if "q \<in> refs h x"
  proof -
    have "refs h' y \<subseteq> {..<length h'}" and "{q} \<inter> refs h' y = {}"
      using f assms(1) that by fastforce+
    then show ?thesis using outside(2) [of h' y "{q}" "h'[q := c]"] v by (simp add: grown_assign)
  qed
qed

end

text \<open>The contract, ready for use as an introduction rule.\<close>

lemma deep_copierI:
  assumes "\<And>h x h'. refs h x \<subseteq> {..<length h} \<Longrightarrow> length h \<le> length h' \<Longrightarrow>
      (\<And>p. p \<in> refs h x \<Longrightarrow> h' ! p = h ! p) \<Longrightarrow> refs h' x = refs h x \<and> val h' x = val h x"
    and "\<And>h x y h'. refs h x \<subseteq> {..<length h} \<Longrightarrow> run_state (copy x) h = (y, h') \<Longrightarrow>
      grown {} h h' \<and> val h' y = val h x \<and> refs h' y \<subseteq> {length h..<length h'}"
  shows "deep_copier copy refs val"
proof
  fix h h' :: "'a list" and x
  assume "refs h x \<subseteq> {..<length h}" and "length h \<le> length h'"
    and "\<And>p. p \<in> refs h x \<Longrightarrow> h' ! p = h ! p"
  from assms(1) [OF this] show "refs h' x = refs h x" and "val h' x = val h x" by simp_all
next
  fix h :: "'a list" and x
  assume sub: "refs h x \<subseteq> {..<length h}"
  show "grown {} h (snd (run_state (copy x) h))"
    and "val (snd (run_state (copy x) h)) (fst (run_state (copy x) h)) = val h x"
    and "refs (snd (run_state (copy x) h)) (fst (run_state (copy x) h))
      \<subseteq> {length h..<length (snd (run_state (copy x) h))}"
    using assms(2) [OF sub prod.collapse [symmetric]] by simp_all
qed

section \<open>Copying behind a pointer\<close>

text \<open>
  The shape of every generated function that copies behind a pointer: nil stays nil, otherwise a new
  cell with the zero value is allocated and filled. \<open>wrap\<close> and \<open>unwrap\<close> put a value of the type into
  its kind of cell and take it out.
\<close>

definition copy_pointer ::
    "('x \<Rightarrow> 'c) \<Rightarrow> ('c \<Rightarrow> 'x) \<Rightarrow> 'x \<Rightarrow> ('x \<Rightarrow> ('c list, 'x) state) \<Rightarrow> nat option \<Rightarrow> ('c list, nat option) state" where
  "copy_pointer wrap unwrap zero copy inp = (case inp of
     None \<Rightarrow> State_Monad.return None
   | Some p \<Rightarrow> do {
       out \<leftarrow> alloc (wrap zero);
       c \<leftarrow> load p;
       y \<leftarrow> copy (unwrap c);
       assign out (wrap y);
       State_Monad.return (Some out)
     })"

definition pointer_refs :: "('c \<Rightarrow> 'x) \<Rightarrow> ('c list \<Rightarrow> 'x \<Rightarrow> nat set) \<Rightarrow> 'c list \<Rightarrow> nat option \<Rightarrow> nat set" where
  "pointer_refs unwrap refs h p = (case p of None \<Rightarrow> {} | Some a \<Rightarrow> insert a (refs h (unwrap (h ! a))))"

definition pointer_val :: "('c \<Rightarrow> 'x) \<Rightarrow> ('c list \<Rightarrow> 'x \<Rightarrow> 'v) \<Rightarrow> 'c list \<Rightarrow> nat option \<Rightarrow> 'v option" where
  "pointer_val unwrap val h p = map_option (\<lambda>a. val h (unwrap (h ! a))) p"

lemma pointer_same_cells:
  assumes "\<And>x. refs h x \<subseteq> {..<length h} \<Longrightarrow> (\<And>q. q \<in> refs h x \<Longrightarrow> h' ! q = h ! q) \<Longrightarrow>
      refs h' x = refs h x \<and> val h' x = val h x"
    and sub: "pointer_refs unwrap refs h p \<subseteq> {..<length h}"
    and same: "\<And>q. q \<in> pointer_refs unwrap refs h p \<Longrightarrow> h' ! q = h ! q"
  shows "pointer_refs unwrap refs h' p = pointer_refs unwrap refs h p \<and>
    pointer_val unwrap val h' p = pointer_val unwrap val h p"
proof (cases p)
  case None
  then show ?thesis by (simp add: pointer_refs_def pointer_val_def)
next
  case (Some a)
  define x where "x = unwrap (h ! a)"
  have "refs h x \<subseteq> {..<length h}" and a: "h' ! a = h ! a" and "\<And>q. q \<in> refs h x \<Longrightarrow> h' ! q = h ! q"
    using sub same Some by (simp_all add: pointer_refs_def x_def)
  from assms(1) [OF this(1,3)] show ?thesis
    using Some a by (simp add: pointer_refs_def pointer_val_def x_def)
qed

lemma run_copy_pointer:
  "run_state (copy_pointer wrap unwrap zero copy None) h = (None, h)"
  "run_state (copy_pointer wrap unwrap zero copy (Some p)) h =
    (let (y, h') = run_state (copy (unwrap ((h @ [wrap zero]) ! p))) (h @ [wrap zero])
     in (Some (length h), h'[length h := wrap y]))"
  by (simp_all add: copy_pointer_def split: prod.split)

context deep_copier
begin

lemma into_new_cell:
  assumes sub: "refs h x \<subseteq> {..<length h}" and run: "run_state (copy x) (h @ [c]) = (y, h1)"
  shows "grown {} h (h1[length h := d])" and "length h < length h1"
    and "val (h1[length h := d]) y = val h x"
    and "refs (h1[length h := d]) y \<subseteq> {Suc (length h)..<length h1}"
proof -
  have eq: "refs (h @ [c]) x = refs h x" "val (h @ [c]) x = val h x"
    by (rule outside [OF sub grown_append Int_empty_left])+
  have sub0: "refs (h @ [c]) x \<subseteq> {..<length (h @ [c])}"
    unfolding eq using sub by force
  have g1: "grown {} (h @ [c]) h1"
    using copy_grown [OF sub0] unfolding run by simp
  have v1: "val h1 y = val h x"
    using copy_val [OF sub0] unfolding run eq by simp
  have f1: "refs h1 y \<subseteq> {Suc (length h)..<length h1}"
    using copy_fresh [OF sub0] unfolding run by simp
  show len: "length h < length h1" using grown_length [OF g1] by simp
  have "h1 ! p = h ! p" if "p < length h" for p
    using g1 that by (simp add: grown_def nth_append)
  then show "grown {} h (h1[length h := d])"
    using len by (simp add: grown_def)
  have b: "refs h1 y \<subseteq> {..<length h1}" and i: "{length h} \<inter> refs h1 y = {}" using f1 by auto
  have "refs (h1[length h := d]) y = refs h1 y" "val (h1[length h := d]) y = val h1 y"
    by (rule outside [OF b grown_assign i]; simp)+
  then show "val (h1[length h := d]) y = val h x"
    and "refs (h1[length h := d]) y \<subseteq> {Suc (length h)..<length h1}"
    using v1 f1 by simp_all
qed

lemma behind_pointer:
  assumes wrap: "\<And>x. unwrap (wrap x) = x"
  shows "deep_copier (copy_pointer wrap unwrap zero copy) (pointer_refs unwrap refs) (pointer_val unwrap val)"
proof (rule deep_copierI)
  fix h h' :: "'c list" and p
  assume sub: "pointer_refs unwrap refs h p \<subseteq> {..<length h}" and len: "length h \<le> length h'"
    and same: "\<And>q. q \<in> pointer_refs unwrap refs h p \<Longrightarrow> h' ! q = h ! q"
  then show "pointer_refs unwrap refs h' p = pointer_refs unwrap refs h p \<and>
    pointer_val unwrap val h' p = pointer_val unwrap val h p"
    by (intro pointer_same_cells same_cells)
next
  fix h h' :: "'c list" and p r
  assume sub: "pointer_refs unwrap refs h p \<subseteq> {..<length h}"
    and run: "run_state (copy_pointer wrap unwrap zero copy p) h = (r, h')"
  show "grown {} h h' \<and> pointer_val unwrap val h' r = pointer_val unwrap val h p \<and>
    pointer_refs unwrap refs h' r \<subseteq> {length h..<length h'}"
  proof (cases p)
    case None
    then show ?thesis using run by (auto simp: run_copy_pointer pointer_val_def pointer_refs_def)
  next
    case (Some a)
    define x where "x = unwrap (h ! a)"
    have a: "a < length h" and sx: "refs h x \<subseteq> {..<length h}"
      using sub Some by (simp_all add: pointer_refs_def x_def)
    obtain y h1 where cp: "run_state (copy x) (h @ [wrap zero]) = (y, h1)"
      by (metis surj_pair)
    have eq: "r = Some (length h)" "h' = h1[length h := wrap y]"
      using run cp Some a by (simp_all add: run_copy_pointer nth_append x_def)
    have "refs (h1[length h := wrap y]) y \<subseteq> {length h..<length h1}"
      by (rule subset_trans [OF into_new_cell(4) [OF sx cp]]) auto
    with into_new_cell(1-3) [OF sx cp] show ?thesis
      using Some by (simp add: eq pointer_val_def pointer_refs_def x_def wrap)
  qed
qed

end

section \<open>Copying structs and slices\<close>

text \<open>A struct one field of which needs a deep copy; two fields copied one after the other.\<close>

context deep_copier
begin

lemma in_field:
  assumes "\<And>x y. get (put x y) = y" and "\<And>x y. rst (put x y) = rst x"
  shows "deep_copier (\<lambda>x. do { y \<leftarrow> copy (get x); State_Monad.return (put x y) })
    (\<lambda>h x. refs h (get x)) (\<lambda>h x. build (rst x) (val h (get x)))"
  by (rule deep_copierI) (auto simp: assms split: prod.splits dest: same_cells copied copied_in)

lemma optional:
  "deep_copier (\<lambda>x. case x of None \<Rightarrow> State_Monad.return None
      | Some a \<Rightarrow> do { b \<leftarrow> copy a; State_Monad.return (Some b) })
    (\<lambda>h x. case x of None \<Rightarrow> {} | Some a \<Rightarrow> refs h a) (\<lambda>h x. map_option (val h) x)"
  by (rule deep_copierI) (auto split: prod.splits option.splits dest: same_cells copied)

end

text \<open>Two parts of a struct, copied one after the other.\<close>

definition copy_both ::
    "('x \<Rightarrow> ('c list, 'x) state) \<Rightarrow> ('y \<Rightarrow> ('c list, 'y) state) \<Rightarrow> 'x \<times> 'y \<Rightarrow> ('c list, 'x \<times> 'y) state" where
  "copy_both copy1 copy2 p = do { x \<leftarrow> copy1 (fst p); y \<leftarrow> copy2 (snd p); State_Monad.return (x, y) }"

lemma both:
  assumes "deep_copier copy1 refs1 val1" and "deep_copier copy2 refs2 val2"
  shows "deep_copier (copy_both copy1 copy2) (\<lambda>h p. refs1 h (fst p) \<union> refs2 h (snd p))
    (\<lambda>h p. (val1 h (fst p), val2 h (snd p)))"
proof (rule deep_copierI)
  fix h h' p
  assume "refs1 h (fst p) \<union> refs2 h (snd p) \<subseteq> {..<length h}" and "length h \<le> length h'"
    and "\<And>q. q \<in> refs1 h (fst p) \<union> refs2 h (snd p) \<Longrightarrow> h' ! q = h ! q"
  then show "refs1 h' (fst p) \<union> refs2 h' (snd p) = refs1 h (fst p) \<union> refs2 h (snd p) \<and>
    (val1 h' (fst p), val2 h' (snd p)) = (val1 h (fst p), val2 h (snd p))"
    using deep_copier.same_cells [OF assms(1), of h "fst p" h']
      deep_copier.same_cells [OF assms(2), of h "snd p" h'] by simp
next
  fix h h' p r
  assume sub: "refs1 h (fst p) \<union> refs2 h (snd p) \<subseteq> {..<length h}"
    and run: "run_state (copy_both copy1 copy2 p) h = (r, h')"
  obtain x h1 where r1: "run_state (copy1 (fst p)) h = (x, h1)" by (metis surj_pair)
  obtain y where r2: "run_state (copy2 (snd p)) h1 = (y, h')" and r: "r = (x, y)"
    using run r1 by (auto simp: copy_both_def split: prod.splits)
  have c1: "grown {} h h1" "val1 h1 x = val1 h (fst p)" "refs1 h1 x \<subseteq> {length h..<length h1}"
    using deep_copier.copied [OF assms(1) _ r1] sub by simp_all
  have s2: "refs2 h1 (snd p) = refs2 h (snd p)" "val2 h1 (snd p) = val2 h (snd p)"
    using deep_copier.outside [OF assms(2) _ c1(1)] sub by simp_all
  have len: "length h \<le> length h1" by (rule grown_length [OF c1(1)])
  have "refs2 h1 (snd p) \<subseteq> {..<length h1}"
    using sub len by (auto simp: s2)
  from deep_copier.copied [OF assms(2) this r2]
  have c2: "grown {} h1 h'" "val2 h' y = val2 h (snd p)" "refs2 h' y \<subseteq> {length h1..<length h'}"
    using s2 by simp_all
  have s1: "refs1 h' x = refs1 h1 x" "val1 h' x = val1 h1 x"
    by (rule deep_copier.outside [OF assms(1) _ c2(1)], use c1(3) in auto)+
  show "grown {} h h' \<and>
    (val1 h' (fst r), val2 h' (snd r)) = (val1 h (fst p), val2 h (snd p)) \<and>
    refs1 h' (fst r) \<union> refs2 h' (snd r) \<subseteq> {length h..<length h'}"
    using grown_trans [OF c1(1) c2(1)] c1 c2 s1 len grown_length [OF c2(1)] by (auto simp: r)
qed

text \<open>
  A slice: nil, or a pointer to its array. The copy gets an array of zero values, and the elements
  are copied into it one by one.
\<close>

primrec copy_elements ::
    "('x list \<Rightarrow> 'c) \<Rightarrow> ('c \<Rightarrow> 'x list) \<Rightarrow> ('x \<Rightarrow> ('c list, 'x) state) \<Rightarrow> nat \<Rightarrow> nat \<Rightarrow> 'x list \<Rightarrow>
     ('c list, unit) state" where
  "copy_elements wrap unwrap copy out i [] = State_Monad.return ()"
| "copy_elements wrap unwrap copy out i (x # xs) = do {
     y \<leftarrow> copy x;
     c \<leftarrow> load out;
     assign out (wrap ((unwrap c)[i := y]));
     copy_elements wrap unwrap copy out (Suc i) xs
   }"

definition copy_slice ::
    "('x list \<Rightarrow> 'c) \<Rightarrow> ('c \<Rightarrow> 'x list) \<Rightarrow> 'x \<Rightarrow> ('x \<Rightarrow> ('c list, 'x) state) \<Rightarrow> nat option \<Rightarrow>
     ('c list, nat option) state" where
  "copy_slice wrap unwrap zero copy inp = (case inp of
     None \<Rightarrow> State_Monad.return None
   | Some p \<Rightarrow> do {
       c \<leftarrow> load p;
       out \<leftarrow> alloc (wrap (replicate (length (unwrap c)) zero));
       copy_elements wrap unwrap copy out 0 (unwrap c);
       State_Monad.return (Some out)
     })"

definition list_refs :: "('c list \<Rightarrow> 'x \<Rightarrow> nat set) \<Rightarrow> 'c list \<Rightarrow> 'x list \<Rightarrow> nat set" where
  "list_refs refs h xs = (\<Union>x \<in> set xs. refs h x)"

definition list_val :: "('c list \<Rightarrow> 'x \<Rightarrow> 'v) \<Rightarrow> 'c list \<Rightarrow> 'x list \<Rightarrow> 'v list" where
  "list_val val h xs = map (val h) xs"

context deep_copier
begin

lemma list_outside:
  assumes "list_refs refs h xs \<subseteq> {..<length h}" and "grown Q h h'" and "Q \<inter> list_refs refs h xs = {}"
  shows "list_refs refs h' xs = list_refs refs h xs" and "list_val val h' xs = list_val val h xs"
proof -
  have "refs h' x = refs h x \<and> val h' x = val h x" if "x \<in> set xs" for x
    using outside [of h x Q h'] assms that by (fastforce simp: list_refs_def)
  then show "list_refs refs h' xs = list_refs refs h xs" and "list_val val h' xs = list_val val h xs"
    by (simp_all add: list_refs_def list_val_def)
qed

lemma elements:
  assumes wrap: "\<And>xs. unwrap (wrap xs) = xs"
    and "out < length h" and "h ! out = wrap (as @ zs)" and "length zs = length xs"
    and "list_refs refs h xs \<subseteq> {..<out}" and "list_refs refs h as \<subseteq> {Suc out..<length h}"
    and "run_state (copy_elements wrap unwrap copy out (length as) xs) h = ((), h')"
  shows "\<exists>ys. grown {out} h h' \<and> h' ! out = wrap (as @ ys) \<and> list_val val h' (as @ ys) = list_val val h (as @ xs) \<and>
    list_refs refs h' (as @ ys) \<subseteq> {Suc out..<length h'}"
  using assms(2-)
proof (induction xs arbitrary: h as zs)
  case Nil
  then show ?case by (intro exI [of _ "[]"]) auto
next
  case (Cons x xs)
  obtain z zs' where zs: "zs = z # zs'" using Cons.prems(3) by (cases zs) auto
  have rx: "refs h x \<subseteq> {..<out}" and rxs: "list_refs refs h xs \<subseteq> {..<out}"
    using Cons.prems(4) by (auto simp: list_refs_def)
  obtain y h1 where cp: "run_state (copy x) h = (y, h1)" by (metis surj_pair)
  have "refs h x \<subseteq> {..<length h}" using rx Cons.prems(1) by auto
  note c = copied [OF this cp]
  have g: "grown {out} h h1" by (rule grown_mono [OF c [THEN conjunct1]]) simp
  have at: "h1 ! out = wrap (as @ z # zs')"
    using c Cons.prems(1,2) by (simp add: grown_def zs)
  define h2 where "h2 = h1[out := wrap ((as @ [y]) @ zs')]"
  have len: "out < length h1" using grown_length [OF g] Cons.prems(1) by simp
  have g12: "grown {out} h1 h2" by (simp add: h2_def grown_assign)
  have g2: "grown {out} h h2" by (rule grown_trans [OF g g12])
  have len2: "length h2 = length h1" by (simp add: h2_def)
  have y: "refs h2 y = refs h1 y" "val h2 y = val h x"
    using outside [OF _ g12, of y] c Cons.prems(1) by fastforce+
  have as: "list_refs refs h2 as = list_refs refs h as" "list_val val h2 as = list_val val h as"
    using list_outside [OF _ g2, of as] Cons.prems(5) by fastforce+
  have xs: "list_refs refs h2 xs = list_refs refs h xs" "list_val val h2 xs = list_val val h xs"
    using list_outside [OF _ g2, of xs] rxs Cons.prems(1) by fastforce+
  have run: "run_state (copy_elements wrap unwrap copy out (length (as @ [y])) xs) h2 = ((), h')"
    using Cons.prems(6) cp at by (simp add: h2_def wrap)
  have "list_refs refs h2 (as @ [y]) \<subseteq> {Suc out..<length h2}"
    using as y c Cons.prems(1,5) grown_length [OF g]
    by (fastforce simp: list_refs_def len2)
  from Cons.IH [OF _ _ _ _ this run, of zs'] obtain ys where
    "grown {out} h2 h'" "h' ! out = wrap ((as @ [y]) @ ys)"
    "list_val val h' ((as @ [y]) @ ys) = list_val val h2 ((as @ [y]) @ xs)"
    "list_refs refs h' ((as @ [y]) @ ys) \<subseteq> {Suc out..<length h'}"
    using len len2 Cons.prems(3) rxs xs by (auto simp: h2_def zs)
  then show ?case
    using grown_trans [OF g2] as xs y
    by (intro exI [of _ "y # ys"]) (simp add: list_val_def)
qed

lemma slice:
  assumes wrap: "\<And>xs. unwrap (wrap xs) = xs"
  shows "deep_copier (copy_slice wrap unwrap zero copy)
    (pointer_refs unwrap (list_refs refs)) (pointer_val unwrap (list_val val))"
proof (rule deep_copierI)
  fix h h' :: "'c list" and p
  assume "pointer_refs unwrap (list_refs refs) h p \<subseteq> {..<length h}" and len: "length h \<le> length h'"
    and "\<And>q. q \<in> pointer_refs unwrap (list_refs refs) h p \<Longrightarrow> h' ! q = h ! q"
  then show "pointer_refs unwrap (list_refs refs) h' p = pointer_refs unwrap (list_refs refs) h p \<and>
    pointer_val unwrap (list_val val) h' p = pointer_val unwrap (list_val val) h p"
  proof (intro pointer_same_cells)
    fix xs
    assume "list_refs refs h xs \<subseteq> {..<length h}" and "\<And>q. q \<in> list_refs refs h xs \<Longrightarrow> h' ! q = h ! q"
    then have "refs h' x = refs h x \<and> val h' x = val h x" if "x \<in> set xs" for x
      using that len by (intro same_cells) (auto simp: list_refs_def)
    then show "list_refs refs h' xs = list_refs refs h xs \<and> list_val val h' xs = list_val val h xs"
      by (simp add: list_refs_def list_val_def)
  qed
next
  fix h h' :: "'c list" and p r
  assume sub: "pointer_refs unwrap (list_refs refs) h p \<subseteq> {..<length h}"
    and run: "run_state (copy_slice wrap unwrap zero copy p) h = (r, h')"
  show "grown {} h h' \<and> pointer_val unwrap (list_val val) h' r = pointer_val unwrap (list_val val) h p \<and>
    pointer_refs unwrap (list_refs refs) h' r \<subseteq> {length h..<length h'}"
  proof (cases p)
    case None
    then show ?thesis using run by (auto simp: copy_slice_def pointer_val_def pointer_refs_def)
  next
    case (Some a)
    define xs where "xs = unwrap (h ! a)"
    define h0 where "h0 = h @ [wrap (replicate (length xs) zero)]"
    have sx: "list_refs refs h xs \<subseteq> {..<length h}"
      using sub Some by (simp add: pointer_refs_def xs_def)
    have h0: "list_refs refs h0 xs = list_refs refs h xs" "list_val val h0 xs = list_val val h xs"
      by (rule list_outside [OF sx, of "{}"]; simp add: h0_def)+
    have r: "r = Some (length h)" and cp: "run_state (copy_elements wrap unwrap copy (length h) (length ([] :: 'x list)) xs) h0 = ((), h')"
      using run Some by (auto simp: copy_slice_def xs_def h0_def split: prod.splits)
    obtain ys where "grown {length h} h0 h'" "h' ! length h = wrap ys"
        "list_val val h' ys = list_val val h xs" "list_refs refs h' ys \<subseteq> {Suc (length h)..<length h'}"
      using elements [OF wrap _ _ _ _ _ cp, of "replicate (length xs) zero"] sx h0
      by (auto simp: h0_def list_refs_def)
    moreover from this(1) have "grown {} h h'" "length h < length h'"
      by (auto simp: grown_def h0_def nth_append)
    ultimately show ?thesis
      using Some by (auto simp: r pointer_val_def pointer_refs_def xs_def wrap)
  qed
qed

end

section \<open>The API types in the store\<close>

text \<open>
  The structs of \<open>api/v1/mckube_types.go\<close> with their pointers. The type of an \<open>ObjectMeta\<close> and of a
  \<open>ListMeta\<close> are arguments: their fields and their copying belong to the Kubernetes library.
\<close>

record rt_obj =
  o_Period :: int
  o_RuntimeLow :: int
  o_RuntimeHi :: int
  o_Core :: "nat option"

record spec_obj =
  o_Node :: string
  o_PodName :: string
  o_Criticality :: string
  o_PressuredDeadlinesTotal :: int
  o_PressuredDeadlinesPeriod :: int
  o_RTSettings :: "nat option"

record status_obj =
  o_CurrentRuntime :: string
  o_LastOverrunTime :: "nat option"
  o_AllocatedCore :: string

record 'm mckube_obj =
  o_TypeMeta :: "string \<times> string"
  o_ObjectMeta :: 'm
  o_Spec :: spec_obj
  o_Status :: status_obj

record 'l list_obj =
  o_ListTypeMeta :: "string \<times> string"
  o_ListMeta :: 'l
  o_Items :: "nat option"

datatype ('m, 'l) cell =
    StringCell (un_string: string)
  | TimeCell (un_time: int)
  | SettingsCell (un_settings: rt_obj)
  | SpecCell (un_spec: spec_obj)
  | StatusCell (un_status: status_obj)
  | McKubeCell (un_mckube: "'m mckube_obj")
  | ArrayCell (un_array: "'m mckube_obj list")
  | ListCell (un_list: "'l list_obj")

type_synonym ('m, 'l) store = "('m, 'l) cell list"

text \<open>What the Kubernetes library copies: metadata, and the time behind a pointer that is not nil.\<close>

record ('m, 'l) library =
  copy_ObjectMeta :: "'m \<Rightarrow> (('m, 'l) store, 'm) state"
  copy_ListMeta :: "'l \<Rightarrow> (('m, 'l) store, 'l) state"
  copy_Time :: "nat \<Rightarrow> (('m, 'l) store, nat) state"
  zero_ObjectMeta :: 'm
  zero_ListMeta :: 'l

section \<open>The generated functions\<close>

definition RTSettings_DeepCopyInto :: "rt_obj \<Rightarrow> (('m, 'l) store, rt_obj) state" where
  "RTSettings_DeepCopyInto inp = do {
     core \<leftarrow> copy_pointer StringCell un_string '''' State_Monad.return (o_Core inp);
     State_Monad.return (inp\<lparr>o_Core := core\<rparr>)
   }"

definition zero_settings :: rt_obj where
  "zero_settings = \<lparr>o_Period = 0, o_RuntimeLow = 0, o_RuntimeHi = 0, o_Core = None\<rparr>"

definition RTSettings_DeepCopy :: "nat option \<Rightarrow> (('m, 'l) store, nat option) state" where
  "RTSettings_DeepCopy = copy_pointer SettingsCell un_settings zero_settings RTSettings_DeepCopyInto"

definition McKubeSpec_DeepCopyInto :: "spec_obj \<Rightarrow> (('m, 'l) store, spec_obj) state" where
  "McKubeSpec_DeepCopyInto inp = do {
     rts \<leftarrow> copy_pointer SettingsCell un_settings zero_settings RTSettings_DeepCopyInto (o_RTSettings inp);
     State_Monad.return (inp\<lparr>o_RTSettings := rts\<rparr>)
   }"

definition zero_spec :: spec_obj where
  "zero_spec = \<lparr>o_Node = '''', o_PodName = '''', o_Criticality = '''', o_PressuredDeadlinesTotal = 0,
     o_PressuredDeadlinesPeriod = 0, o_RTSettings = None\<rparr>"

definition McKubeSpec_DeepCopy :: "nat option \<Rightarrow> (('m, 'l) store, nat option) state" where
  "McKubeSpec_DeepCopy = copy_pointer SpecCell un_spec zero_spec McKubeSpec_DeepCopyInto"

definition McKubeStatus_DeepCopyInto ::
    "('m, 'l) library \<Rightarrow> status_obj \<Rightarrow> (('m, 'l) store, status_obj) state" where
  "McKubeStatus_DeepCopyInto L inp = do {
     t \<leftarrow> (case o_LastOverrunTime inp of None \<Rightarrow> State_Monad.return None
           | Some p \<Rightarrow> do { q \<leftarrow> copy_Time L p; State_Monad.return (Some q) });
     State_Monad.return (inp\<lparr>o_LastOverrunTime := t\<rparr>)
   }"

definition zero_status :: status_obj where
  "zero_status = \<lparr>o_CurrentRuntime = '''', o_LastOverrunTime = None, o_AllocatedCore = ''''\<rparr>"

definition McKubeStatus_DeepCopy ::
    "('m, 'l) library \<Rightarrow> nat option \<Rightarrow> (('m, 'l) store, nat option) state" where
  "McKubeStatus_DeepCopy L = copy_pointer StatusCell un_status zero_status (McKubeStatus_DeepCopyInto L)"

definition McKube_DeepCopyInto ::
    "('m, 'l) library \<Rightarrow> 'm mckube_obj \<Rightarrow> (('m, 'l) store, 'm mckube_obj) state" where
  "McKube_DeepCopyInto L inp = do {
     meta \<leftarrow> copy_ObjectMeta L (o_ObjectMeta inp);
     spec \<leftarrow> McKubeSpec_DeepCopyInto (o_Spec inp);
     status \<leftarrow> McKubeStatus_DeepCopyInto L (o_Status inp);
     State_Monad.return (inp\<lparr>o_ObjectMeta := meta, o_Spec := spec, o_Status := status\<rparr>)
   }"

definition zero_mckube :: "('m, 'l) library \<Rightarrow> 'm mckube_obj" where
  "zero_mckube L = \<lparr>o_TypeMeta = ('''', ''''), o_ObjectMeta = zero_ObjectMeta L, o_Spec = zero_spec,
     o_Status = zero_status\<rparr>"

definition McKube_DeepCopy ::
    "('m, 'l) library \<Rightarrow> nat option \<Rightarrow> (('m, 'l) store, nat option) state" where
  "McKube_DeepCopy L = copy_pointer McKubeCell un_mckube (zero_mckube L) (McKube_DeepCopyInto L)"

definition McKubeList_DeepCopyInto ::
    "('m, 'l) library \<Rightarrow> 'l list_obj \<Rightarrow> (('m, 'l) store, 'l list_obj) state" where
  "McKubeList_DeepCopyInto L inp = do {
     meta \<leftarrow> copy_ListMeta L (o_ListMeta inp);
     items \<leftarrow> copy_slice ArrayCell un_array (zero_mckube L) (McKube_DeepCopyInto L) (o_Items inp);
     State_Monad.return (inp\<lparr>o_ListMeta := meta, o_Items := items\<rparr>)
   }"

definition zero_list :: "('m, 'l) library \<Rightarrow> 'l list_obj" where
  "zero_list L = \<lparr>o_ListTypeMeta = ('''', ''''), o_ListMeta = zero_ListMeta L, o_Items = None\<rparr>"

definition McKubeList_DeepCopy ::
    "('m, 'l) library \<Rightarrow> nat option \<Rightarrow> (('m, 'l) store, nat option) state" where
  "McKubeList_DeepCopy L = copy_pointer ListCell un_list (zero_list L) (McKubeList_DeepCopyInto L)"

text \<open>\<open>DeepCopyObject\<close> returns the copy as an object, and nil for nil.\<close>

definition McKube_DeepCopyObject where
  "McKube_DeepCopyObject L p = do {
     c \<leftarrow> McKube_DeepCopy L p;
     State_Monad.return (case c of None \<Rightarrow> None | Some q \<Rightarrow> Some q) }"

definition McKubeList_DeepCopyObject where
  "McKubeList_DeepCopyObject L p = do {
     c \<leftarrow> McKubeList_DeepCopy L p;
     State_Monad.return (case c of None \<Rightarrow> None | Some q \<Rightarrow> Some q) }"

section \<open>What the pointers reach and mean\<close>

text \<open>
  The meaning of a struct is the record of \<open>McKube_Types\<close>, with the pointers followed. What the library's
  structs reach and mean is an argument: \<open>meaning\<close>.
\<close>

record ('m, 'l, 'v, 'w) meaning =
  refs_ObjectMeta :: "('m, 'l) store \<Rightarrow> 'm \<Rightarrow> nat set"
  val_ObjectMeta :: "('m, 'l) store \<Rightarrow> 'm \<Rightarrow> 'v"
  refs_ListMeta :: "('m, 'l) store \<Rightarrow> 'l \<Rightarrow> nat set"
  val_ListMeta :: "('m, 'l) store \<Rightarrow> 'l \<Rightarrow> 'w"
  refs_Time :: "('m, 'l) store \<Rightarrow> nat \<Rightarrow> nat set"
  val_Time :: "('m, 'l) store \<Rightarrow> nat \<Rightarrow> int"

definition library_ok :: "('m, 'l) library \<Rightarrow> ('m, 'l, 'v, 'w) meaning \<Rightarrow> bool" where
  "library_ok L M \<longleftrightarrow>
     deep_copier (copy_ObjectMeta L) (refs_ObjectMeta M) (val_ObjectMeta M) \<and>
     deep_copier (copy_ListMeta L) (refs_ListMeta M) (val_ListMeta M) \<and>
     deep_copier (copy_Time L) (refs_Time M) (val_Time M)"

abbreviation string_refs :: "('m, 'l) store \<Rightarrow> nat option \<Rightarrow> nat set" where
  "string_refs \<equiv> pointer_refs un_string (\<lambda>_ _. {})"

abbreviation string_val :: "('m, 'l) store \<Rightarrow> nat option \<Rightarrow> string option" where
  "string_val \<equiv> pointer_val un_string (\<lambda>_ x. x)"

definition rt_refs :: "('m, 'l) store \<Rightarrow> rt_obj \<Rightarrow> nat set" where
  "rt_refs h x = string_refs h (o_Core x)"

definition rt_val :: "('m, 'l) store \<Rightarrow> rt_obj \<Rightarrow> RTSettings" where
  "rt_val h x = \<lparr>Period = o_Period x, RuntimeLow = o_RuntimeLow x, RuntimeHi = o_RuntimeHi x,
     Core = string_val h (o_Core x)\<rparr>"

definition spec_refs :: "('m, 'l) store \<Rightarrow> spec_obj \<Rightarrow> nat set" where
  "spec_refs h x = pointer_refs un_settings rt_refs h (o_RTSettings x)"

definition spec_val :: "('m, 'l) store \<Rightarrow> spec_obj \<Rightarrow> McKubeSpec" where
  "spec_val h x = \<lparr>Node = o_Node x, PodName = o_PodName x, Criticality = o_Criticality x,
     PressuredDeadlinesTotal = o_PressuredDeadlinesTotal x,
     PressuredDeadlinesPeriod = o_PressuredDeadlinesPeriod x,
     RTSettings = pointer_val un_settings rt_val h (o_RTSettings x)\<rparr>"

definition status_refs :: "('m, 'l, 'v, 'w) meaning \<Rightarrow> ('m, 'l) store \<Rightarrow> status_obj \<Rightarrow> nat set" where
  "status_refs M h x = (case o_LastOverrunTime x of None \<Rightarrow> {} | Some p \<Rightarrow> refs_Time M h p)"

definition status_val :: "('m, 'l, 'v, 'w) meaning \<Rightarrow> ('m, 'l) store \<Rightarrow> status_obj \<Rightarrow> McKubeStatus" where
  "status_val M h x = \<lparr>CurrentRuntime = o_CurrentRuntime x,
     LastOverrunTime = map_option (val_Time M h) (o_LastOverrunTime x), AllocatedCore = o_AllocatedCore x\<rparr>"

definition mckube_refs :: "('m, 'l, 'v, 'w) meaning \<Rightarrow> ('m, 'l) store \<Rightarrow> 'm mckube_obj \<Rightarrow> nat set" where
  "mckube_refs M h x = refs_ObjectMeta M h (o_ObjectMeta x) \<union> (spec_refs h (o_Spec x) \<union> status_refs M h (o_Status x))"

definition mckube_val ::
    "('m, 'l, 'v, 'w) meaning \<Rightarrow> ('m, 'l) store \<Rightarrow> 'm mckube_obj \<Rightarrow>
     (string \<times> string) \<times> 'v \<times> McKubeSpec \<times> McKubeStatus" where
  "mckube_val M h x = (o_TypeMeta x, val_ObjectMeta M h (o_ObjectMeta x), spec_val h (o_Spec x), status_val M h (o_Status x))"

definition mckubes_refs :: "('m, 'l, 'v, 'w) meaning \<Rightarrow> ('m, 'l) store \<Rightarrow> 'l list_obj \<Rightarrow> nat set" where
  "mckubes_refs M h x = refs_ListMeta M h (o_ListMeta x) \<union> pointer_refs un_array (list_refs (mckube_refs M)) h (o_Items x)"

definition mckubes_val where
  "mckubes_val M h x = (o_ListTypeMeta x, val_ListMeta M h (o_ListMeta x),
     pointer_val un_array (list_val (mckube_val M)) h (o_Items x))"

section \<open>The generated functions keep the contract\<close>

interpretation plain: deep_copier "State_Monad.return :: 'x \<Rightarrow> ('c list, 'x) state" "\<lambda>_ _. {}" "\<lambda>_ x. x"
  by (rule deep_copierI) auto

interpretation rt: deep_copier
    "RTSettings_DeepCopyInto :: rt_obj \<Rightarrow> (('m, 'l) store, rt_obj) state" rt_refs rt_val
  unfolding RTSettings_DeepCopyInto_def rt_refs_def [abs_def] rt_val_def [abs_def]
  by (rule deep_copier.in_field [OF plain.behind_pointer, where get = o_Core
      and put = "\<lambda>x y. x\<lparr>o_Core := y\<rparr>" and rst = "\<lambda>x. x\<lparr>o_Core := None\<rparr>"
      and build = "\<lambda>x v. \<lparr>Period = o_Period x, RuntimeLow = o_RuntimeLow x, RuntimeHi = o_RuntimeHi x, Core = v\<rparr>",
      simplified]) simp_all

interpretation spec: deep_copier
    "McKubeSpec_DeepCopyInto :: spec_obj \<Rightarrow> (('m, 'l) store, spec_obj) state" spec_refs spec_val
  unfolding McKubeSpec_DeepCopyInto_def spec_refs_def [abs_def] spec_val_def [abs_def]
  by (rule deep_copier.in_field [OF rt.behind_pointer, where get = o_RTSettings
      and put = "\<lambda>x y. x\<lparr>o_RTSettings := y\<rparr>" and rst = "\<lambda>x. x\<lparr>o_RTSettings := None\<rparr>"
      and build = "\<lambda>x v. \<lparr>Node = o_Node x, PodName = o_PodName x, Criticality = o_Criticality x,
        PressuredDeadlinesTotal = o_PressuredDeadlinesTotal x,
        PressuredDeadlinesPeriod = o_PressuredDeadlinesPeriod x, RTSettings = v\<rparr>",
      simplified]) simp_all

lemma status_copier:
  assumes "library_ok L M"
  shows "deep_copier (McKubeStatus_DeepCopyInto L) (status_refs M) (status_val M)"
proof -
  have "deep_copier (copy_Time L) (refs_Time M) (val_Time M)"
    using assms by (simp add: library_ok_def)
  from deep_copier.in_field [OF deep_copier.optional [OF this], where get = o_LastOverrunTime
      and put = "\<lambda>x y. x\<lparr>o_LastOverrunTime := y\<rparr>" and rst = "\<lambda>x. x\<lparr>o_LastOverrunTime := None\<rparr>"
      and build = "\<lambda>x v. \<lparr>CurrentRuntime = o_CurrentRuntime x, LastOverrunTime = v, AllocatedCore = o_AllocatedCore x\<rparr>"]
  show ?thesis
    unfolding McKubeStatus_DeepCopyInto_def status_refs_def [abs_def] status_val_def [abs_def] by simp
qed

lemma mckube_copier:
  assumes "library_ok L M"
  shows "deep_copier (McKube_DeepCopyInto L) (mckube_refs M) (mckube_val M)"
proof -
  have "deep_copier (copy_ObjectMeta L) (refs_ObjectMeta M) (val_ObjectMeta M)"
    using assms by (simp add: library_ok_def)
  note parts = both [OF this both [OF spec.deep_copier_axioms status_copier [OF assms]]]
  from deep_copier.in_field [OF parts, where get = "\<lambda>x. (o_ObjectMeta x, o_Spec x, o_Status x)"
      and put = "\<lambda>x y. x\<lparr>o_ObjectMeta := fst y, o_Spec := fst (snd y), o_Status := snd (snd y)\<rparr>"
      and rst = o_TypeMeta and build = Pair]
  show ?thesis
    unfolding McKube_DeepCopyInto_def copy_both_def mckube_refs_def [abs_def] mckube_val_def [abs_def]
    by (simp add: State_Monad.bind_assoc)
qed

lemma mckubes_copier:
  assumes "library_ok L M"
  shows "deep_copier (McKubeList_DeepCopyInto L) (mckubes_refs M) (mckubes_val M)"
proof -
  have "deep_copier (copy_ListMeta L) (refs_ListMeta M) (val_ListMeta M)"
    using assms by (simp add: library_ok_def)
  note parts = both [OF this deep_copier.slice [OF mckube_copier [OF assms], of un_array ArrayCell "zero_mckube L"]]
  from deep_copier.in_field [OF parts, where get = "\<lambda>x. (o_ListMeta x, o_Items x)"
      and put = "\<lambda>x y. x\<lparr>o_ListMeta := fst y, o_Items := snd y\<rparr>"
      and rst = o_ListTypeMeta and build = Pair]
  show ?thesis
    unfolding McKubeList_DeepCopyInto_def copy_both_def mckubes_refs_def [abs_def] mckubes_val_def [abs_def]
    by (simp add: State_Monad.bind_assoc)
qed

section \<open>Copies are independent\<close>

abbreviation mckube_reach where
  "mckube_reach M \<equiv> pointer_refs un_mckube (mckube_refs M)"

abbreviation mckube_means where
  "mckube_means M \<equiv> pointer_val un_mckube (mckube_val M)"

abbreviation mckubes_reach where
  "mckubes_reach M \<equiv> pointer_refs un_list (mckubes_refs M)"

abbreviation mckubes_means where
  "mckubes_means M \<equiv> pointer_val un_list (mckubes_val M)"

lemma DeepCopyObject_eq [simp]:
  "McKube_DeepCopyObject L = McKube_DeepCopy L" "McKubeList_DeepCopyObject L = McKubeList_DeepCopy L"
proof -
  have "(case c of None \<Rightarrow> None | Some q \<Rightarrow> Some q) = c" for c :: "nat option"
    by (cases c) simp_all
  then show "McKube_DeepCopyObject L = McKube_DeepCopy L" "McKubeList_DeepCopyObject L = McKubeList_DeepCopy L"
    by (simp_all add: fun_eq_iff McKube_DeepCopyObject_def McKubeList_DeepCopyObject_def)
qed

lemma run_copy_pointer_Some:
  "\<exists>h'. run_state (copy_pointer wrap unwrap zero copy (Some a)) h = (Some (length h), h')"
  by (auto simp: run_copy_pointer split: prod.split)

lemma grown_take: "grown {} h h' \<Longrightarrow> take (length h) h' = h"
  by (auto simp: grown_def intro!: nth_equalityI)

text \<open>
  C31: the copy of a McKube shares nothing with it. \<open>DeepCopyObject\<close> returns a new object and leaves
  every existing cell as it was; the copy means the same resource; whatever is then written to any
  cell the copy reaches (its fields, its settings, its core, its time, its metadata), the original
  means what it did, and the other way round.
\<close>

theorem McKube_DeepCopy_independent:
  assumes "library_ok L M" and "mckube_reach M h (Some a) \<subseteq> {..<length h}"
  shows "\<exists>b h'. run_state (McKube_DeepCopyObject L (Some a)) h = (Some b, h') \<and>
    length h \<le> b \<and> take (length h) h' = h \<and> mckube_means M h' (Some b) = mckube_means M h (Some a) \<and>
    (\<forall>q c. q \<in> mckube_reach M h' (Some b) \<longrightarrow>
      mckube_means M (h'[q := c]) (Some a) = mckube_means M h (Some a)) \<and>
    (\<forall>q c. q \<in> mckube_reach M h (Some a) \<longrightarrow>
      mckube_means M (h'[q := c]) (Some b) = mckube_means M h (Some a))"
proof -
  have D: "deep_copier (McKube_DeepCopy L) (mckube_reach M) (mckube_means M)"
    unfolding McKube_DeepCopy_def by (rule deep_copier.behind_pointer [OF mckube_copier [OF assms(1)]]) simp
  obtain h' where run: "run_state (McKube_DeepCopy L (Some a)) h = (Some (length h), h')"
    unfolding McKube_DeepCopy_def using run_copy_pointer_Some by metis
  show ?thesis
    using run deep_copier.copied [OF D assms(2) run] deep_copier.independent [OF D assms(2) run]
    by (intro exI [of _ "length h"] exI [of _ h']) (simp add: grown_take)
qed

text \<open>
  C32: the copy of a list of McKubes shares nothing with it either: not the array behind the slice, nor
  anything an element reaches. A nil slice stays nil, and the copies are in the order of the originals.
\<close>

theorem McKubeList_DeepCopy_independent:
  assumes "library_ok L M" and "mckubes_reach M h (Some a) \<subseteq> {..<length h}"
  shows "\<exists>b h'. run_state (McKubeList_DeepCopyObject L (Some a)) h = (Some b, h') \<and>
    length h \<le> b \<and> take (length h) h' = h \<and> mckubes_means M h' (Some b) = mckubes_means M h (Some a) \<and>
    (\<forall>q c. q \<in> mckubes_reach M h' (Some b) \<longrightarrow>
      mckubes_means M (h'[q := c]) (Some a) = mckubes_means M h (Some a)) \<and>
    (\<forall>q c. q \<in> mckubes_reach M h (Some a) \<longrightarrow>
      mckubes_means M (h'[q := c]) (Some b) = mckubes_means M h (Some a))"
proof -
  have D: "deep_copier (McKubeList_DeepCopy L) (mckubes_reach M) (mckubes_means M)"
    unfolding McKubeList_DeepCopy_def by (rule deep_copier.behind_pointer [OF mckubes_copier [OF assms(1)]]) simp
  obtain h' where run: "run_state (McKubeList_DeepCopy L (Some a)) h = (Some (length h), h')"
    unfolding McKubeList_DeepCopy_def using run_copy_pointer_Some by metis
  show ?thesis
    using run deep_copier.copied [OF D assms(2) run] deep_copier.independent [OF D assms(2) run]
    by (intro exI [of _ "length h"] exI [of _ h']) (simp add: grown_take)
qed

section \<open>A concrete store\<close>

text \<open>Metadata with a name behind a pointer, and times in cells of their own.\<close>

definition demo_copy_time :: "nat \<Rightarrow> (('m, 'l) store, nat) state" where
  "demo_copy_time p = do { c \<leftarrow> load p; alloc (TimeCell (un_time c)) }"

definition demo_library :: "(nat option, string) library" where
  "demo_library = \<lparr>copy_ObjectMeta = copy_pointer StringCell un_string '''' State_Monad.return,
     copy_ListMeta = State_Monad.return, copy_Time = demo_copy_time,
     zero_ObjectMeta = None, zero_ListMeta = ''''\<rparr>"

definition demo_meaning :: "(nat option, string, string option, string) meaning" where
  "demo_meaning = \<lparr>refs_ObjectMeta = string_refs, val_ObjectMeta = string_val,
     refs_ListMeta = \<lambda>_ _. {}, val_ListMeta = \<lambda>_ x. x,
     refs_Time = \<lambda>_ p. {p}, val_Time = \<lambda>h p. un_time (h ! p)\<rparr>"

lemma demo_library_ok: "library_ok demo_library demo_meaning"
proof -
  have "deep_copier (demo_copy_time :: nat \<Rightarrow> ((nat option, string) store, nat) state)
      (\<lambda>_ p. {p}) (\<lambda>h p. un_time (h ! p))"
    by (rule deep_copierI) (auto simp: demo_copy_time_def)
  then show ?thesis
    by (simp add: library_ok_def demo_library_def demo_meaning_def plain.behind_pointer plain.deep_copier_axioms)
qed

definition demo_store :: "(nat option, string) store" where
  "demo_store = [StringCell ''m'', StringCell ''2-3'',
     SettingsCell \<lparr>o_Period = 1000, o_RuntimeLow = 300, o_RuntimeHi = 500, o_Core = Some 1\<rparr>, TimeCell 7,
     McKubeCell \<lparr>o_TypeMeta = (''McKube'', ''v1''), o_ObjectMeta = Some 0,
       o_Spec = zero_spec\<lparr>o_PodName := ''p'', o_RTSettings := Some 2\<rparr>,
       o_Status = zero_status\<lparr>o_LastOverrunTime := Some 3\<rparr>\<rparr>]"

theorem McKube_DeepCopy_independent_witness:
  "\<exists>b h'. run_state (McKube_DeepCopyObject demo_library (Some 4)) demo_store = (Some b, h') \<and>
    length demo_store \<le> b \<and> mckube_means demo_meaning h' (Some b) = mckube_means demo_meaning demo_store (Some 4)"
proof -
  have "mckube_reach demo_meaning demo_store (Some 4) \<subseteq> {..<length demo_store}"
    by (simp add: pointer_refs_def mckube_refs_def spec_refs_def rt_refs_def status_refs_def demo_store_def
        demo_meaning_def zero_spec_def zero_status_def)
  from McKube_DeepCopy_independent [OF demo_library_ok this] show ?thesis by blast
qed

definition demo_list_store :: "(nat option, string) store" where
  "demo_list_store = demo_store @ [ArrayCell [un_mckube (demo_store ! 4), un_mckube (demo_store ! 4)],
     ListCell \<lparr>o_ListTypeMeta = (''McKubeList'', ''v1''), o_ListMeta = ''7'', o_Items = Some 5\<rparr>]"

theorem McKubeList_DeepCopy_independent_witness:
  "\<exists>b h'. run_state (McKubeList_DeepCopyObject demo_library (Some 6)) demo_list_store = (Some b, h') \<and>
    length demo_list_store \<le> b \<and>
    mckubes_means demo_meaning h' (Some b) = mckubes_means demo_meaning demo_list_store (Some 6)"
proof -
  have "mckubes_reach demo_meaning demo_list_store (Some 6) \<subseteq> {..<length demo_list_store}"
    by (simp add: pointer_refs_def mckubes_refs_def list_refs_def mckube_refs_def spec_refs_def rt_refs_def
        status_refs_def demo_list_store_def demo_store_def demo_meaning_def zero_spec_def zero_status_def)
  from McKubeList_DeepCopy_independent [OF demo_library_ok this] show ?thesis by blast
qed

end
