(* ===== verification/Startup.thy ===== *)
theory Startup
  imports Prelude_Go
begin

text \<open>
  Start-up: \<open>init\<close> and \<open>main\<close> of \<open>cmd/main.go\<close> and \<open>SetupWithManager\<close> of
  \<open>internal/controller/mckube_controller.go\<close>. Every step is a call to the Kubernetes libraries, to the
  operating system or to a function that starts a goroutine; which calls fail is an argument, as are
  the parsed flags and the environment variable. What the model shows is what is started, in which
  order, with which options, and how the process ends.
\<close>

section \<open>Options\<close>

record flags =
  metricsAddr :: string
  probeAddr :: string
  enableLeaderElection :: bool
  secureMetrics :: bool
  enableHTTP2 :: bool

definition default_flags :: flags where
  "default_flags = \<lparr>metricsAddr = ''0'', probeAddr = '':8081'', enableLeaderElection = False,
     secureMetrics = True, enableHTTP2 = False\<rparr>"

text \<open>Of a TLS configuration the code touches the list of protocols only.\<close>

record tls_config =
  NextProtos :: "string list"

definition disableHTTP2 :: "tls_config \<Rightarrow> tls_config" where
  "disableHTTP2 c = c\<lparr>NextProtos := [''http/1.1'']\<rparr>"

definition tls_opts :: "flags \<Rightarrow> (tls_config \<Rightarrow> tls_config) list" where
  "tls_opts fl = (if \<not> enableHTTP2 fl then [disableHTTP2] else [])"

record metrics_options =
  BindAddress :: string
  SecureServing :: bool
  MetricsTLSOpts :: "(tls_config \<Rightarrow> tls_config) list"
  AuthFilter :: bool

record manager_options =
  Metrics :: metrics_options
  WebhookTLSOpts :: "(tls_config \<Rightarrow> tls_config) list"
  HealthProbeBindAddress :: string
  LeaderElection :: bool
  LeaderElectionID :: string

definition manager_opts :: "flags \<Rightarrow> manager_options" where
  "manager_opts fl =
     (let m = \<lparr>BindAddress = metricsAddr fl, SecureServing = secureMetrics fl, MetricsTLSOpts = tls_opts fl,
                AuthFilter = False\<rparr>
      in \<lparr>Metrics = (if secureMetrics fl then m\<lparr>AuthFilter := True\<rparr> else m), WebhookTLSOpts = tls_opts fl,
          HealthProbeBindAddress = probeAddr fl, LeaderElection = enableLeaderElection fl,
          LeaderElectionID = ''223f3cf1.sdv.com''\<rparr>)"

section \<open>Calls and ends\<close>

datatype kind = McKubes | Pods | Nodes

datatype startup_call =
    AddToScheme string
  | GetConfig
  | NewManager manager_options
  | NewDynamicClient
  | IndexField kind string
  | ListenOverrun int
  | CompleteController "kind list"
  | RegisterWebhook string
  | AddHealthzCheck string
  | AddReadyzCheck string
  | TaintThread
  | StartManager

datatype ending = Returned_main | OS_Exit int | Panicked_main

text \<open>Whether a call fails may depend on the calls before it.\<close>

type_synonym answers = "startup_call list \<Rightarrow> startup_call \<Rightarrow> bool"

definition try_call :: "answers \<Rightarrow> startup_call \<Rightarrow> (startup_call list, bool) state" where
  "try_call F c = State (\<lambda>h. (F h c, h @ [c]))"

definition do_call :: "startup_call \<Rightarrow> (startup_call list, unit) state" where
  "do_call c = State_Monad.update (\<lambda>h. h @ [c])"

lemma run_calls [simp]:
  "run_state (try_call F c) h = (F h c, h @ [c])" "run_state (do_call c) h = ((), h @ [c])"
  by (simp_all add: try_call_def do_call_def)

section \<open>The program\<close>

text \<open>\<open>utilruntime.Must\<close> panics on an error.\<close>

definition init_scheme :: "answers \<Rightarrow> (startup_call list, bool) state" where
  "init_scheme F = do {
     e \<leftarrow> try_call F (AddToScheme ''client-go'');
     if e then State_Monad.return True
     else try_call F (AddToScheme ''mcoperator/v1'')
   }"

definition SetupWithManager :: "answers \<Rightarrow> (startup_call list, bool) state" where
  "SetupWithManager F = do {
     e \<leftarrow> try_call F (IndexField Pods ''.metadata.name'');
     if e then State_Monad.return True
     else do {
       do_call (ListenOverrun 8090);
       try_call F (CompleteController [McKubes, Pods, Nodes])
     }
   }"

text \<open>The constructor of the mutator never returns nil, so its check never fires.\<close>

definition register_webhooks :: "(startup_call list, unit) state" where
  "register_webhooks = do {
     do_call (RegisterWebhook ''/mutate-v1-pod'');
     do_call (RegisterWebhook ''/validate-rt-pod'')
   }"

definition main_checks :: "answers \<Rightarrow> (startup_call list, ending) state" where
  "main_checks F = do {
     e1 \<leftarrow> try_call F (AddHealthzCheck ''healthz'');
     if e1 then State_Monad.return (OS_Exit 1) else do {
     e2 \<leftarrow> try_call F (AddReadyzCheck ''readyz'');
     if e2 then State_Monad.return (OS_Exit 1) else do {
     do_call TaintThread;
     e3 \<leftarrow> try_call F StartManager;
     State_Monad.return (if e3 then OS_Exit 1 else Returned_main)
   }}}"

definition main :: "answers \<Rightarrow> flags \<Rightarrow> string \<Rightarrow> (startup_call list, ending) state" where
  "main F fl ENABLE_WEBHOOKS = do {
     e1 \<leftarrow> try_call F GetConfig;
     if e1 then State_Monad.return (OS_Exit 1) else do {
     e2 \<leftarrow> try_call F (NewManager (manager_opts fl));
     if e2 then State_Monad.return (OS_Exit 1) else do {
     e3 \<leftarrow> try_call F NewDynamicClient;
     if e3 then State_Monad.return Panicked_main else do {
     e4 \<leftarrow> SetupWithManager F;
     if e4 then State_Monad.return (OS_Exit 1) else do {
     (if ENABLE_WEBHOOKS \<noteq> ''false'' then register_webhooks else State_Monad.return ());
     main_checks F
   }}}}}"

definition program :: "answers \<Rightarrow> flags \<Rightarrow> string \<Rightarrow> (startup_call list, ending) state" where
  "program F fl ENABLE_WEBHOOKS = do {
     e \<leftarrow> init_scheme F;
     if e then State_Monad.return Panicked_main else main F fl ENABLE_WEBHOOKS
   }"

section \<open>Start-up is all or nothing\<close>

text \<open>The calls in the order of a start without failures, and those that can report one.\<close>

definition startup_plan :: "flags \<Rightarrow> string \<Rightarrow> startup_call list" where
  "startup_plan fl w =
     [AddToScheme ''client-go'', AddToScheme ''mcoperator/v1'', GetConfig, NewManager (manager_opts fl),
      NewDynamicClient, IndexField Pods ''.metadata.name'', ListenOverrun 8090,
      CompleteController [McKubes, Pods, Nodes]] @
     (if w = ''false'' then [] else [RegisterWebhook ''/mutate-v1-pod'', RegisterWebhook ''/validate-rt-pod'']) @
     [AddHealthzCheck ''healthz'', AddReadyzCheck ''readyz'', TaintThread, StartManager]"

fun can_fail :: "startup_call \<Rightarrow> bool" where
  "can_fail (ListenOverrun _) = False"
| "can_fail (RegisterWebhook _) = False"
| "can_fail TaintThread = False"
| "can_fail _ = True"

primrec no_failure :: "answers \<Rightarrow> startup_call list \<Rightarrow> startup_call list \<Rightarrow> bool" where
  "no_failure F before [] = True"
| "no_failure F before (c # cs) = ((can_fail c \<longrightarrow> \<not> F before c) \<and> no_failure F (before @ [c]) cs)"

definition protocols :: "(tls_config \<Rightarrow> tls_config) list \<Rightarrow> string list \<Rightarrow> string list" where
  "protocols opts ps = NextProtos (fold (\<lambda>f c. f c) opts \<lparr>NextProtos = ps\<rparr>)"

lemma protocols_tls: "protocols (tls_opts fl) ps = (if enableHTTP2 fl then ps else [''http/1.1''])"
  by (simp add: protocols_def tls_opts_def disableHTTP2_def)

lemma run_register_webhooks [simp]:
  "run_state register_webhooks h = ((), h @ [RegisterWebhook ''/mutate-v1-pod'', RegisterWebhook ''/validate-rt-pod''])"
  by (simp add: register_webhooks_def)

text \<open>
  C39: start-up is all or nothing, whichever calls fail. The calls made are a prefix of the plan; the
  process returns from \<open>main\<close> exactly when all of the plan was made and no call failed, and otherwise
  it ends at the first call that failed, with exit code 1, or by a panic when that was the
  registration of a type or the dynamic client. So the manager is started only after everything else
  succeeded.
\<close>

theorem program_fail_stop:
  "let (ending, made) = run_state (program F fl w) [] in prefix made (startup_plan fl w) \<and>
     (if ending = Returned_main then made = startup_plan fl w \<and> no_failure F [] made
      else made \<noteq> [] \<and> no_failure F [] (butlast made) \<and> can_fail (last made) \<and> F (butlast made) (last made) \<and>
        ending = (if (\<exists>n. last made = AddToScheme n) \<or> last made = NewDynamicClient then Panicked_main else OS_Exit 1))"
  by (simp add: program_def init_scheme_def main_def SetupWithManager_def main_checks_def startup_plan_def Let_def)

text \<open>
  What the servers offer. The manager is created with options under which both servers, for
  metrics and for webhooks, negotiate HTTP/1.1 alone unless HTTP/2 was asked for, and the metrics are
  behind authentication exactly when they are served securely.
\<close>

lemma program_serves:
  assumes "NewManager opts \<in> set (snd (run_state (program F fl w) []))"
  shows "protocols (WebhookTLSOpts opts) ps = (if enableHTTP2 fl then ps else [''http/1.1'']) \<and>
    protocols (MetricsTLSOpts (Metrics opts)) ps = (if enableHTTP2 fl then ps else [''http/1.1'']) \<and>
    AuthFilter (Metrics opts) = SecureServing (Metrics opts)"
proof -
  have "opts = manager_opts fl"
    using assms
    by (simp add: program_def init_scheme_def main_def SetupWithManager_def main_checks_def split: if_splits)
  then show ?thesis by (simp add: manager_opts_def protocols_tls Let_def)
qed

end
