(* ===== verification/Go_Text.thy ===== *)
theory Go_Text
  imports Prelude_Go
begin

text \<open>
  The parts of Go's \<open>strings\<close>, \<open>fmt\<close> and \<open>strconv\<close> packages the controller uses, on byte strings
  (a \<open>char\<close> is a byte of the UTF-8 text): searching, splitting at one byte, trimming white space,
  \<open>fmt.Sscanf\<close> with the verb \<open>%d\<close>, and printing a decimal.
\<close>

section \<open>Searching and splitting\<close>

text \<open>\<open>strings.Index\<close>, \<open>strings.LastIndex\<close> and \<open>strings.Contains\<close>.\<close>

fun str_index :: "string \<Rightarrow> string \<Rightarrow> nat option" where
  "str_index [] sub = (if sub = [] then Some 0 else None)"
| "str_index (x # xs) sub =
     (if prefix sub (x # xs) then Some 0 else map_option Suc (str_index xs sub))"

fun str_last_index :: "string \<Rightarrow> string \<Rightarrow> nat option" where
  "str_last_index [] sub = (if sub = [] then Some 0 else None)"
| "str_last_index (x # xs) sub =
     (case str_last_index xs sub of
        Some i \<Rightarrow> Some (Suc i)
      | None \<Rightarrow> if prefix sub (x # xs) then Some 0 else None)"

definition str_contains :: "string \<Rightarrow> string \<Rightarrow> bool" where
  "str_contains s sub \<longleftrightarrow> str_index s sub \<noteq> None"

text \<open>\<open>strings.Split\<close> with a one-byte separator: always at least one part.\<close>

fun split_char :: "char \<Rightarrow> string \<Rightarrow> string list" where
  "split_char c [] = [[]]"
| "split_char c (x # xs) =
     (if x = c then [] # split_char c xs
      else (case split_char c xs of [] \<Rightarrow> [[x]] | p # ps \<Rightarrow> (x # p) # ps))"

section \<open>White space\<close>

text \<open>
  The encodings of the code points that both \<open>unicode.IsSpace\<close> and the scanner of \<open>fmt\<close> call white
  space: tab to carriage return, blank, U+0085, U+00A0, U+1680, U+2000 to U+200A, U+2028, U+2029,
  U+202F, U+205F and U+3000.
\<close>

definition space_runes :: "string list" where
  "space_runes =
     [[CHR 0x09], [CHR 0x0A], [CHR 0x0B], [CHR 0x0C], [CHR 0x0D], [CHR 0x20],
      [CHR 0xC2, CHR 0x85], [CHR 0xC2, CHR 0xA0], [CHR 0xE1, CHR 0x9A, CHR 0x80],
      [CHR 0xE2, CHR 0x80, CHR 0x80], [CHR 0xE2, CHR 0x80, CHR 0x81],
      [CHR 0xE2, CHR 0x80, CHR 0x82], [CHR 0xE2, CHR 0x80, CHR 0x83],
      [CHR 0xE2, CHR 0x80, CHR 0x84], [CHR 0xE2, CHR 0x80, CHR 0x85],
      [CHR 0xE2, CHR 0x80, CHR 0x86], [CHR 0xE2, CHR 0x80, CHR 0x87],
      [CHR 0xE2, CHR 0x80, CHR 0x88], [CHR 0xE2, CHR 0x80, CHR 0x89],
      [CHR 0xE2, CHR 0x80, CHR 0x8A], [CHR 0xE2, CHR 0x80, CHR 0xA8],
      [CHR 0xE2, CHR 0x80, CHR 0xA9], [CHR 0xE2, CHR 0x80, CHR 0xAF],
      [CHR 0xE2, CHR 0x81, CHR 0x9F], [CHR 0xE3, CHR 0x80, CHR 0x80]]"

definition strip_one :: "string list \<Rightarrow> string \<Rightarrow> string option" where
  "strip_one runes s = map_option (\<lambda>r. drop (length r) s) (find (\<lambda>r. r \<noteq> [] \<and> prefix r s) runes)"

lemma strip_one_shorter: "strip_one runes s = Some t \<Longrightarrow> length t < length s"
  by (auto simp: strip_one_def find_Some_iff prefix_def)

function strip_all :: "string list \<Rightarrow> string \<Rightarrow> string" where
  "strip_all runes s = (case strip_one runes s of None \<Rightarrow> s | Some t \<Rightarrow> strip_all runes t)"
  by pat_completeness auto
termination
  by (relation "measure (\<lambda>(runes, s). length s)") (auto dest: strip_one_shorter)

declare strip_all.simps [simp del]

text \<open>\<open>strings.TrimSpace\<close>.\<close>

definition trim_space :: "string \<Rightarrow> string" where
  "trim_space s = rev (strip_all (map rev space_runes) (rev (strip_all space_runes s)))"

section \<open>Scanning and printing decimals\<close>

definition is_digit :: "char \<Rightarrow> bool" where
  "is_digit c \<longleftrightarrow> 48 \<le> (of_char c :: nat) \<and> (of_char c :: nat) \<le> 57"

definition digits_val :: "string \<Rightarrow> int" where
  "digits_val ds = foldl (\<lambda>a c. 10 * a + (of_char c - 48)) 0 ds"

text \<open>
  The scanner's \<open>SkipSpace\<close> for \<open>Sscanf\<close>: white space is skipped, a newline is an error (a
  carriage return before one does not hide it).
\<close>

function scan_skip :: "string \<Rightarrow> string option" where
  "scan_skip s = (case s of
      [] \<Rightarrow> Some []
    | c # t \<Rightarrow>
        if c = CHR 0x0A then None
        else (case strip_one space_runes s of None \<Rightarrow> Some s | Some u \<Rightarrow> scan_skip u))"
  by pat_completeness auto
termination
  by (relation "measure length") (auto dest: strip_one_shorter)

declare scan_skip.simps [simp del]

text \<open>
  \<open>fmt.Sscanf(s, "%d", &v)\<close>: \<open>None\<close> when it reports an error (and leaves \<open>v\<close> alone): nothing to
  read, no digit after the optional sign, or a value outside \<open>int64\<close>. What follows the digits is
  not looked at.
\<close>

definition scan_d :: "string \<Rightarrow> int option" where
  "scan_d s = (case scan_skip s of
      None \<Rightarrow> None
    | Some t \<Rightarrow>
        (let (neg, u) = (case t of
              [] \<Rightarrow> (False, [])
            | c # r \<Rightarrow> if c = CHR ''-'' then (True, r) else if c = CHR ''+'' then (False, r) else (False, t));
             ds = takeWhile is_digit u;
             n = (if neg then - digits_val ds else digits_val ds)
         in if ds = [] then None
            else if - (2 ^ 63) \<le> n \<and> n < 2 ^ 63 then Some n else None))"

text \<open>\<open>fmt.Sprintf("%d", n)\<close>.\<close>

definition digit_char :: "nat \<Rightarrow> char" where
  "digit_char d = char_of (48 + d)"

fun show_nat :: "nat \<Rightarrow> string" where
  "show_nat n = (if n < 10 then [digit_char n] else show_nat (n div 10) @ [digit_char (n mod 10)])"

declare show_nat.simps [simp del]

definition show_int :: "int \<Rightarrow> string" where
  "show_int n = (if n < 0 then CHR ''-'' # show_nat (nat (- n)) else show_nat (nat n))"

section \<open>Facts\<close>

lemma str_contains_single: "str_contains s [c] \<longleftrightarrow> c \<in> set s"
  by (induction s) (auto simp: str_contains_def)

lemma str_contains_empty [simp]: "str_contains s []"
  by (cases s) (auto simp: str_contains_def)

lemma str_contains_self [simp]: "str_contains s s"
  by (cases s) (auto simp: str_contains_def)

lemma split_char_absent: "c \<notin> set s \<Longrightarrow> split_char c s = [s]"
  by (induction s) auto

lemma split_char_append: "c \<notin> set s \<Longrightarrow> split_char c (s @ c # t) = s # split_char c t"
  by (induction s) auto

lemma split_char_nonempty [simp]: "split_char c s \<noteq> []"
  by (induction s) (auto split: list.splits)

lemma of_char_digit [simp]: "d < 10 \<Longrightarrow> (of_char (digit_char d) :: nat) = 48 + d"
  by (simp add: digit_char_def)

lemma of_char_digit_int [simp]: "d < 10 \<Longrightarrow> (of_char (digit_char d) :: int) = 48 + int d"
  using of_char_digit [of d] by (metis of_nat_add of_nat_numeral of_nat_of_char)

lemma is_digit_digit_char [simp]: "d < 10 \<Longrightarrow> is_digit (digit_char d)"
  by (simp add: is_digit_def)

lemma show_nat_digits: "c \<in> set (show_nat n) \<Longrightarrow> is_digit c"
proof (induction n rule: show_nat.induct)
  case (1 n)
  then show ?case by (auto simp: show_nat.simps [of n] split: if_splits)
qed

lemma show_nat_nonempty [simp]: "show_nat n \<noteq> []"
  by (simp add: show_nat.simps [of n])

lemma digits_val_append: "digits_val (s @ [c]) = 10 * digits_val s + (of_char c - 48)"
  by (simp add: digits_val_def)

lemma digits_val_show_nat: "digits_val (show_nat n) = int n"
proof (induction n rule: show_nat.induct)
  case (1 n)
  show ?case
  proof (cases "n < 10")
    case True
    then show ?thesis by (simp add: show_nat.simps [of n] digits_val_def)
  next
    case False
    with 1 have "digits_val (show_nat (n div 10)) = int (n div 10)" by simp
    with False show ?thesis
      by (simp add: show_nat.simps [of n] digits_val_append zdiv_int zmod_int)
  qed
qed

lemma digit_not_space: "is_digit c \<Longrightarrow> r \<in> set space_runes \<Longrightarrow> \<not> prefix r (c # t)"
  by (auto simp: space_runes_def is_digit_def)

lemma digit_not_space_rev:
  "is_digit c \<Longrightarrow> r \<in> set space_runes \<Longrightarrow> \<not> prefix (rev r) (c # t)"
  by (auto simp: space_runes_def is_digit_def)

lemma strip_one_digit: "is_digit c \<Longrightarrow> strip_one space_runes (c # t) = None"
  by (auto simp: strip_one_def find_None_iff digit_not_space)

lemma strip_one_digit_rev: "is_digit c \<Longrightarrow> strip_one (map rev space_runes) (c # t) = None"
  by (auto simp: strip_one_def find_None_iff digit_not_space_rev)

text \<open>Trimming leaves a text alone that starts and ends with a digit.\<close>

lemma trim_space_digits:
  assumes "s \<noteq> []" and "is_digit (hd s)" and "is_digit (last s)"
  shows "trim_space s = s"
proof -
  have "strip_all space_runes s = s"
    using assms(1,2) by (cases s) (simp_all add: strip_all.simps [of _ "_ # _"] strip_one_digit)
  moreover have "strip_all (map rev space_runes) (rev s) = rev s"
    using assms(1,3)
    by (cases s rule: rev_cases) (simp_all add: strip_all.simps [of _ "_ # _"] strip_one_digit_rev)
  ultimately show ?thesis by (simp add: trim_space_def)
qed

lemma scan_skip_digit: "is_digit c \<Longrightarrow> scan_skip (c # t) = Some (c # t)"
  by (subst scan_skip.simps) (auto simp: strip_one_digit is_digit_def)

text \<open>Scanning reads back what printing wrote, whatever follows it.\<close>

lemma scan_d_show_nat:
  assumes "int n < 2 ^ 63" and "t = [] \<or> \<not> is_digit (hd t)"
  shows "scan_d (show_nat n @ t) = Some (int n)"
proof -
  obtain c r where cr: "show_nat n = c # r" by (cases "show_nat n") simp_all
  have c: "is_digit c" using cr show_nat_digits [of c n] by simp
  then have "c \<noteq> CHR ''-''" "c \<noteq> CHR ''+''" by (auto simp: is_digit_def)
  moreover have "takeWhile is_digit (show_nat n @ t) = show_nat n"
    using assms(2) show_nat_digits [of _ n] by (cases t) (simp_all add: takeWhile_append)
  ultimately show ?thesis
    using assms(1) c by (simp add: scan_d_def cr scan_skip_digit digits_val_show_nat [of n, unfolded cr])
qed

lemma scan_d_Nil [simp]: "scan_d [] = None"
  by (simp add: scan_d_def scan_skip.simps)

lemma scan_d_range: "scan_d s = Some n \<Longrightarrow> - (2 ^ 63) \<le> n \<and> n < 2 ^ 63"
  by (auto simp: scan_d_def Let_def split: option.splits prod.splits if_splits)

end
