(* ===== verification/Core_Set.thy ===== *)
theory Core_Set
  imports Go_Text
begin

text \<open>
  \<open>parseCoreSet\<close> of \<open>internal/controller/mckube_controller.go\<close>: the text of a core set, such as
  \<open>"2-3"\<close>, \<open>"1"\<close> or \<open>"0,2,4"\<close>, to the list of core numbers. \<open>None\<close> is "does not return": the
  range loop counts with Go's \<open>int\<close>, so a range whose end is the largest \<open>int\<close> never stops.
\<close>

section \<open>The parser\<close>

text \<open>\<open>for i := start; i <= end; i++ { cores = append(cores, i) }\<close>.\<close>

partial_function (option) core_range :: "int \<Rightarrow> int \<Rightarrow> int list \<Rightarrow> int list option" where
  "core_range i e cores =
     (if i \<le> e then core_range (wrap64 (i + 1)) e (cores @ [i]) else Some cores)"

definition scan_or_zero :: "string \<Rightarrow> int" where
  "scan_or_zero s = (case scan_d s of Some v \<Rightarrow> v | None \<Rightarrow> 0)"

definition parse_part :: "string \<Rightarrow> int list \<Rightarrow> int list option" where
  "parse_part raw cores =
     (let part = trim_space raw in
      if str_contains part ''-'' then
        (let range_parts = split_char (CHR ''-'') part in
         if length range_parts = 2
         then core_range (scan_or_zero (range_parts ! 0)) (scan_or_zero (range_parts ! 1)) cores
         else Some cores)
      else (case scan_d part of Some c \<Rightarrow> Some (cores @ [c]) | None \<Rightarrow> Some cores))"

fun parse_parts :: "string list \<Rightarrow> int list \<Rightarrow> int list option" where
  "parse_parts [] cores = Some cores"
| "parse_parts (p # ps) cores =
     (case parse_part p cores of None \<Rightarrow> None | Some cores' \<Rightarrow> parse_parts ps cores')"

definition parseCoreSet :: "string \<Rightarrow> int list option" where
  "parseCoreSet coreStr = parse_parts (split_char (CHR '','') coreStr) []"

section \<open>The range loop\<close>

lemma core_range_eq:
  assumes "- (2 ^ 63) \<le> i" and "e < max_int64"
  shows "core_range i e cores = Some (cores @ [i..e])"
  using assms
proof (induction "nat (e + 1 - i)" arbitrary: i cores)
  case 0
  then show ?case by (simp add: core_range.simps)
next
  case (Suc n)
  then have "i \<le> e" by simp
  moreover have "wrap64 (i + 1) = i + 1"
    using Suc.prems \<open>i \<le> e\<close> by (intro wrap64_id) (simp_all add: max_int64_def)
  moreover have "core_range (i + 1) e (cores @ [i]) = Some ((cores @ [i]) @ [i + 1..e])"
    using Suc by (intro Suc.hyps) simp_all
  ultimately show ?case by (simp add: core_range.simps [of i] upto_rec1)
qed

lemma core_range_returns:
  assumes "core_range i e cores = Some r" and "i \<le> max_int64"
  shows "e \<noteq> max_int64"
proof -
  have "i \<le> max_int64 \<longrightarrow> e \<noteq> max_int64"
  proof (rule core_range.raw_induct [where P = "\<lambda>i e cores r. i \<le> max_int64 \<longrightarrow> e \<noteq> max_int64",
        OF _ assms(1)])
    fix f i e cores r
    assume IH: "\<And>i e cores r. f i e cores = Some r \<Longrightarrow> i \<le> max_int64 \<longrightarrow> e \<noteq> max_int64"
      and eq: "(if i \<le> e then f (wrap64 (i + 1)) e (cores @ [i]) else Some cores) = Some r"
    show "i \<le> max_int64 \<longrightarrow> e \<noteq> max_int64"
    proof (cases "i \<le> e")
      case True
      have "wrap64 (i + 1) < 2 ^ 63"
        unfolding wrap64_def using signed_take_bit_int_less_exp [of 63 "i + 1"] by simp
      then have "wrap64 (i + 1) \<le> max_int64" by (simp add: max_int64_def)
      then show ?thesis using True eq IH [of "wrap64 (i + 1)"] by simp
    qed auto
  qed
  then show ?thesis using assms(2) by simp
qed

lemma core_range_diverges: "i \<le> max_int64 \<Longrightarrow> core_range i max_int64 cores = None"
  using core_range_returns by (cases "core_range i max_int64 cores") auto

section \<open>Helpers for the parser's properties\<close>

lemma scan_or_zero_range: "- (2 ^ 63) \<le> scan_or_zero s \<and> scan_or_zero s \<le> max_int64"
  using scan_d_range [of s]
  by (auto simp: scan_or_zero_def max_int64_def split: option.splits)

lemma show_nat_digit_set: "set (show_nat n) \<subseteq> Collect is_digit"
  using show_nat_digits [of _ n] by blast

lemma show_nat_ends [simp]: "is_digit (hd (show_nat n))" "is_digit (last (show_nat n))"
  using show_nat_digits [of _ n] by simp_all

lemma show_nat_plain:
  "CHR '','' \<notin> set (show_nat n)" "CHR ''-'' \<notin> set (show_nat n)"
  by (rule contra_subsetD [OF show_nat_digit_set], simp add: is_digit_def)+

lemma show_int_nonneg: "0 \<le> c \<Longrightarrow> show_int c = show_nat (nat c)"
  by (simp add: show_int_def)

lemma trim_show_nat: "trim_space (show_nat n) = show_nat n"
  by (rule trim_space_digits) simp_all

lemma scan_show_nat: "int n \<le> max_int64 \<Longrightarrow> scan_d (show_nat n) = Some (int n)"
  using scan_d_show_nat [of n "[]"] by (simp add: max_int64_def)

lemma parse_part_int:
  "0 \<le> c \<Longrightarrow> c \<le> max_int64 \<Longrightarrow> parse_part (show_int c) cores = Some (cores @ [c])"
  by (simp add: parse_part_def show_int_nonneg trim_show_nat scan_show_nat str_contains_single
      show_nat_plain)

text \<open>A list of core numbers, printed with commas between them.\<close>

fun join_comma :: "string list \<Rightarrow> string" where
  "join_comma [] = []"
| "join_comma [s] = s"
| "join_comma (s # t # ss) = s @ CHR '','' # join_comma (t # ss)"

lemma split_join_comma:
  "ss \<noteq> [] \<Longrightarrow> \<forall>s \<in> set ss. CHR '','' \<notin> set s \<Longrightarrow> split_char (CHR '','') (join_comma ss) = ss"
  by (induction ss rule: join_comma.induct) (simp_all add: split_char_absent split_char_append)

lemma parse_parts_ints:
  "\<forall>c \<in> set cs. 0 \<le> c \<and> c \<le> max_int64 \<Longrightarrow>
   parse_parts (map show_int cs) cores = Some (cores @ cs)"
  by (induction cs arbitrary: cores) (simp_all add: parse_part_int)

text \<open>The texts for which the loop of some part does not stop.\<close>

definition endless_part :: "string \<Rightarrow> bool" where
  "endless_part raw = (let part = trim_space raw; rp = split_char (CHR ''-'') part in
     str_contains part ''-'' \<and> length rp = 2 \<and> scan_or_zero (rp ! 1) = max_int64)"

lemma parse_part_None_iff: "parse_part raw cores = None \<longleftrightarrow> endless_part raw"
proof -
  have "core_range (scan_or_zero a) (scan_or_zero b) cores = None \<longleftrightarrow> scan_or_zero b = max_int64" for a b
    using scan_or_zero_range [of a] scan_or_zero_range [of b]
      core_range_diverges [of "scan_or_zero a" cores] core_range_eq [of "scan_or_zero a" "scan_or_zero b" cores]
    by (cases "scan_or_zero b = max_int64") auto
  then show ?thesis
    by (auto simp: parse_part_def endless_part_def Let_def split: option.splits)
qed

lemma parse_parts_None_iff: "parse_parts ps cores = None \<longleftrightarrow> (\<exists>p \<in> set ps. endless_part p)"
proof (induction ps arbitrary: cores)
  case (Cons p ps)
  then show ?case
    using parse_part_None_iff [of p cores] by (auto split: option.splits)
qed simp

section \<open>Properties\<close>

text \<open>
  C33: \<open>parseCoreSet\<close> reads back a printed list of cores: for every non-empty list of core numbers
  that fit in an \<open>int\<close>, printing them with commas and parsing gives the same list, in the same
  order and with its duplicates.
\<close>

theorem parseCoreSet_roundtrip:
  assumes "cs \<noteq> []" and "\<forall>c \<in> set cs. 0 \<le> c \<and> c \<le> max_int64"
  shows "parseCoreSet (join_comma (map show_int cs)) = Some cs"
proof -
  have "split_char (CHR '','') (join_comma (map show_int cs)) = map show_int cs"
    using assms by (intro split_join_comma) (auto simp: show_int_nonneg show_nat_plain)
  then show ?thesis using parse_parts_ints [OF assms(2), of "[]"] by (simp add: parseCoreSet_def)
qed

theorem parseCoreSet_roundtrip_witness:
  "parseCoreSet (join_comma (map show_int [0, 2, 4])) = Some [0, 2, 4]"
  by (rule parseCoreSet_roundtrip) (simp_all add: max_int64_def)

text \<open>
  C34: a range \<open>"a-b"\<close> parses to all cores from \<open>a\<close> to \<open>b\<close>, both included, and to no core when \<open>b\<close>
  is below \<open>a\<close>.
\<close>

theorem parseCoreSet_range:
  assumes "0 \<le> a" "a \<le> max_int64" "0 \<le> b" "b < max_int64"
  shows "parseCoreSet (show_int a @ ''-'' @ show_int b) = Some [a..b]"
proof -
  let ?s = "show_nat (nat a) @ CHR ''-'' # show_nat (nat b)"
  have t: "trim_space ?s = ?s"
    by (rule trim_space_digits) simp_all
  have "split_char (CHR ''-'') ?s = [show_nat (nat a), show_nat (nat b)]"
    by (simp add: split_char_append show_nat_plain split_char_absent)
  moreover have "scan_or_zero (show_nat (nat a)) = a" "scan_or_zero (show_nat (nat b)) = b"
    using assms by (simp_all add: scan_or_zero_def scan_show_nat)
  moreover have "core_range a b [] = Some [a..b]"
    using assms by (subst core_range_eq) simp_all
  ultimately have "parse_part ?s [] = Some [a..b]"
    by (simp add: parse_part_def t str_contains_single)
  moreover have "split_char (CHR '','') ?s = [?s]"
    by (rule split_char_absent) (simp add: show_nat_plain)
  ultimately show ?thesis using assms by (simp add: parseCoreSet_def show_int_nonneg)
qed

theorem parseCoreSet_range_witness:
  "parseCoreSet (show_int 2 @ ''-'' @ show_int 3) = Some [2..3]"
  by (rule parseCoreSet_range) (simp_all add: max_int64_def)

text \<open>
  C35: \<open>parseCoreSet\<close> returns on every text unless some comma-separated part is a two-sided range
  whose end is the largest \<open>int\<close>; on such a text its loop counter wraps and it never returns.
\<close>

theorem parseCoreSet_returns:
  "(\<exists>cores. parseCoreSet s = Some cores) \<longleftrightarrow> \<not> (\<exists>p \<in> set (split_char (CHR '','') s). endless_part p)"
  using parse_parts_None_iff [of "split_char (CHR '','') s" "[]"]
  by (auto simp: parseCoreSet_def)

end
