(* ===== verification/Go_Parse.thy ===== *)
theory Go_Parse
  imports Go_Text
begin

text \<open>
  The parsers of Go's \<open>strconv\<close> that the handlers apply to node annotations: \<open>ParseBool\<close>,
  \<open>ParseInt(s, 10, 64)\<close> and \<open>ParseFloat(s, 64)\<close>. Of the last the code uses only whether it reports
  an error (the value is logged), which is what is modelled: the syntax, with Go's rule on
  underscores, and the overflow test.
\<close>

section \<open>Booleans and integers\<close>

definition parse_bool :: "string \<Rightarrow> bool option" where
  "parse_bool s =
     (if s \<in> set [''1'', ''t'', ''T'', ''true'', ''TRUE'', ''True''] then Some True
      else if s \<in> set [''0'', ''f'', ''F'', ''false'', ''FALSE'', ''False''] then Some False
      else None)"

definition parse_uint :: "string \<Rightarrow> int option" where
  "parse_uint s = (if s \<noteq> '''' \<and> list_all is_digit s then Some (digits_val s) else None)"

definition parse_int64 :: "string \<Rightarrow> int option" where
  "parse_int64 s =
     (case s of
        [] \<Rightarrow> None
      | c # rest \<Rightarrow>
          (case parse_uint (if c = CHR ''+'' \<or> c = CHR ''-'' then rest else s) of
             None \<Rightarrow> None
           | Some u \<Rightarrow>
               if c = CHR ''-'' then (if u \<le> 2 ^ 63 then Some (- u) else None)
               else (if u < 2 ^ 63 then Some u else None)))"

section \<open>Floats\<close>

definition lower :: "char \<Rightarrow> char" where
  "lower c = (if (65 :: nat) \<le> of_char c \<and> of_char c \<le> (90 :: nat) then char_of (of_char c + (32 :: nat)) else c)"

definition is_hex_letter :: "char \<Rightarrow> bool" where
  "is_hex_letter c \<longleftrightarrow> (97 :: nat) \<le> of_char (lower c) \<and> of_char (lower c) \<le> (102 :: nat)"

definition is_sign :: "char \<Rightarrow> bool" where
  "is_sign c \<longleftrightarrow> c = CHR ''+'' \<or> c = CHR ''-''"

definition drop_sign :: "string \<Rightarrow> string" where
  "drop_sign s = (case s of c # t \<Rightarrow> if is_sign c then t else s | [] \<Rightarrow> [])"

text \<open>\<open>underscoreOK\<close>: the state is the kind of the last character, as in Go's source.\<close>

fun underscores_ok :: "bool \<Rightarrow> char \<Rightarrow> string \<Rightarrow> bool" where
  "underscores_ok hex i [] = (i \<noteq> CHR ''_'')"
| "underscores_ok hex i (c # s) =
     (if is_digit c \<or> hex \<and> is_hex_letter c then underscores_ok hex (CHR ''0'') s
      else if c = CHR ''_'' then i = CHR ''0'' \<and> underscores_ok hex (CHR ''_'') s
      else i \<noteq> CHR ''_'' \<and> underscores_ok hex (CHR ''!'') s)"

definition underscoreOK :: "string \<Rightarrow> bool" where
  "underscoreOK s =
     (let t = drop_sign s in
      if 2 \<le> length t \<and> t ! 0 = CHR ''0'' \<and> lower (t ! 1) \<in> {CHR ''b'', CHR ''o'', CHR ''x''}
      then underscores_ok (lower (t ! 1) = CHR ''x'') (CHR ''0'') (drop 2 t)
      else underscores_ok False (CHR ''^'') t)"

text \<open>
  The mantissa: its value, the number of digits after the dot, whether there was a digit or an
  underscore, and the rest of the text.
\<close>

definition digit_val :: "char \<Rightarrow> int" where
  "digit_val c = (if is_digit c then of_char c - 48 else of_char (lower c) - 87)"

fun scan_mantissa :: "bool \<Rightarrow> string \<Rightarrow> bool \<Rightarrow> int \<times> nat \<times> bool \<times> bool \<Rightarrow> (int \<times> nat \<times> bool \<times> bool) \<times> string" where
  "scan_mantissa hex [] dot acc = (acc, [])"
| "scan_mantissa hex (c # s) dot (m, fd, digits, us) =
     (if c = CHR ''_'' then scan_mantissa hex s dot (m, fd, digits, True)
      else if c = CHR ''.'' then
        (if dot then ((m, fd, digits, us), c # s) else scan_mantissa hex s True (m, fd, digits, us))
      else if is_digit c \<or> hex \<and> is_hex_letter c then
        scan_mantissa hex s dot
          (m * (if hex then 16 else 10) + digit_val c, if dot then fd + 1 else fd, True, us)
      else ((m, fd, digits, us), c # s))"

fun scan_exp_digits :: "string \<Rightarrow> int \<Rightarrow> bool \<Rightarrow> (int \<times> bool) \<times> string" where
  "scan_exp_digits [] e us = ((e, us), [])"
| "scan_exp_digits (c # s) e us =
     (if c = CHR ''_'' then scan_exp_digits s e True
      else if is_digit c then scan_exp_digits s (if e < 10000 then e * 10 + digit_val c else e) us
      else ((e, us), c # s))"

text \<open>The exponent, if the text goes on with its letter; \<open>None\<close> is a syntax error.\<close>

definition scan_exponent :: "bool \<Rightarrow> string \<Rightarrow> ((int \<times> bool) \<times> string) option" where
  "scan_exponent hex s =
     (case s of
        c # t \<Rightarrow>
          if lower c = (if hex then CHR ''p'' else CHR ''e'') then
            (let u = drop_sign t in
             if u \<noteq> [] \<and> is_digit (hd u) then
               (case scan_exp_digits u 0 False of ((e, us), rest) \<Rightarrow>
                  Some ((if t \<noteq> [] \<and> hd t = CHR ''-'' then - e else e, us), rest))
             else None)
          else if hex then None else Some ((0, False), s)
      | [] \<Rightarrow> if hex then None else Some ((0, False), s))"

definition f64_overflows :: "rat \<Rightarrow> bool" where
  "f64_overflows x \<longleftrightarrow> 2 ^ 1024 - 2 ^ 970 \<le> x"

definition is_special_float :: "string \<Rightarrow> bool" where
  "is_special_float s \<longleftrightarrow>
     map lower s = ''nan'' \<or> map lower (drop_sign s) = ''inf'' \<or> map lower (drop_sign s) = ''infinity''"

definition parse_float_ok :: "string \<Rightarrow> bool" where
  "parse_float_ok s =
     (if is_special_float s then True
      else
        (let t = drop_sign s;
             hex = (2 < length t \<and> t ! 0 = CHR ''0'' \<and> lower (t ! 1) = CHR ''x'') in
         case scan_mantissa hex (if hex then drop 2 t else t) False (0, 0, False, False) of
           ((m, fd, digits, us), rest) \<Rightarrow>
             digits \<and>
             (case scan_exponent hex rest of
                None \<Rightarrow> False
              | Some ((e, us'), rest') \<Rightarrow>
                  rest' = [] \<and> (us \<or> us' \<longrightarrow> underscoreOK s) \<and>
                  \<not> f64_overflows (of_int m *
                      (if hex then 2 powi (e - 4 * int fd) else 10 powi (e - int fd))))))"

lemma parse_bool_examples:
  "parse_bool ''true'' = Some True" "parse_bool ''False'' = Some False" "parse_bool ''yes'' = None"
  by (simp_all add: parse_bool_def)

lemma parse_int64_show_nat:
  assumes "int n < 2 ^ 63"
  shows "parse_int64 (show_nat n) = Some (int n)"
proof -
  obtain c t where s: "show_nat n = c # t" by (cases "show_nat n") simp_all
  have d: "is_digit c" using show_nat_digits [of c n] s by simp
  have "list_all is_digit (show_nat n)" using show_nat_digits by (auto simp: list_all_iff)
  then have "parse_uint (show_nat n) = Some (int n)"
    by (simp add: parse_uint_def digits_val_show_nat)
  moreover have "c \<noteq> CHR ''+'' \<and> c \<noteq> CHR ''-''" using d by (auto simp: is_digit_def)
  ultimately show ?thesis using assms s by (simp add: parse_int64_def)
qed

lemma parse_int64_show_int:
  assumes "- (2 ^ 63) \<le> n" and "n < 2 ^ 63"
  shows "parse_int64 (show_int n) = Some n"
proof (cases "n < 0")
  case True
  have "list_all is_digit (show_nat k)" for k using show_nat_digits by (auto simp: list_all_iff)
  then have "parse_uint (show_nat (nat (- n))) = Some (- n)"
    using True by (simp add: parse_uint_def digits_val_show_nat)
  then show ?thesis using True assms(1) by (simp add: parse_int64_def show_int_def)
next
  case False
  then show ?thesis using assms(2) parse_int64_show_nat [of "nat n"] by (simp add: show_int_def)
qed

end
