(* ===== verification/Float64.thy ===== *)
theory Float64
  imports Prelude_Go
begin

text \<open>
  IEEE 754 double precision as far as the controller uses it. A finite \<open>float64\<close> is its rational
  value; \<open>f64_round\<close> rounds a rational to 53 significant bits, ties to even. Every value the code
  computes with is a quotient or product of 64-bit integers and small constants, far inside the
  normal range (2 to the -1022 up to 2 to the 1024), so the model has no overflow and no
  subnormals. Conversion of a float outside the range of \<open>int64\<close> is left to the platform by the
  Go specification; the model takes the amd64 result, the least \<open>int64\<close>.

  The laws the components use are the locale \<open>rounding\<close>: monotone, exact on short mantissas,
  relative error at most 2 to the -53, and snapping to a nearby integer.
\<close>

section \<open>Rounding\<close>

definition ilog2 :: "rat \<Rightarrow> int" where
  "ilog2 x = (let (n, d) = quotient_of x;
                  e = int (floorlog 2 (nat n)) - int (floorlog 2 (nat d))
              in if 2 powi e \<le> x then e else e - 1)"

definition round_even :: "rat \<Rightarrow> int" where
  "round_even x = (let f = \<lfloor>x\<rfloor>; r = x - of_int f in
     if r < 1 / 2 then f else if 1 / 2 < r then f + 1 else if even f then f else f + 1)"

definition f64_round :: "rat \<Rightarrow> rat" where
  "f64_round x = (if x = 0 then 0 else
     let e = ilog2 \<bar>x\<bar> - 52 in of_int (round_even (x / 2 powi e)) * 2 powi e)"

definition f64_of_int :: "int \<Rightarrow> rat" where
  "f64_of_int n = f64_round (of_int n)"

definition f64_add :: "rat \<Rightarrow> rat \<Rightarrow> rat" where
  "f64_add x y = f64_round (x + y)"

definition f64_sub :: "rat \<Rightarrow> rat \<Rightarrow> rat" where
  "f64_sub x y = f64_round (x - y)"

definition f64_mul :: "rat \<Rightarrow> rat \<Rightarrow> rat" where
  "f64_mul x y = f64_round (x * y)"

definition f64_div :: "rat \<Rightarrow> rat \<Rightarrow> rat" where
  "f64_div x y = f64_round (x / y)"

definition f64_to_int :: "rat \<Rightarrow> int" where
  "f64_to_int x = (let t = (if 0 \<le> x then \<lfloor>x\<rfloor> else \<lceil>x\<rceil>) in
     if - (2 ^ 63) \<le> t \<and> t < 2 ^ 63 then t else - (2 ^ 63))"

section \<open>The exponent\<close>

lemma ilog2_bounds:
  assumes "0 < x"
  shows "2 powi ilog2 x \<le> x" and "x < 2 powi (ilog2 x + 1)"
proof -
  obtain n d where nd: "quotient_of x = (n, d)" by fastforce
  have d: "0 < d" using nd by (rule quotient_of_denom_pos)
  have x: "x = of_int n / of_int d" using nd by (rule quotient_of_div)
  have n: "0 < n" using assms d unfolding x by (simp add: zero_less_divide_iff)
  define a where "a = floorlog 2 (nat n)"
  define b where "b = floorlog 2 (nat d)"
  have a: "2 ^ (a - 1) \<le> nat n" "nat n < 2 ^ a" "0 < a"
    using floorlog_bounds [of "nat n" 2] n by (auto simp: a_def floorlog_def)
  have b: "2 ^ (b - 1) \<le> nat d" "nat d < 2 ^ b" "0 < b"
    using floorlog_bounds [of "nat d" 2] d by (auto simp: b_def floorlog_def)
  have ra: "(2 :: rat) powi (int a - 1) \<le> of_int n" "of_int n < (2 :: rat) powi int a"
  proof -
    have "int (2 ^ (a - 1)) \<le> n" "n < int (2 ^ a)" using a n by linarith+
    then have "(of_int (2 ^ (a - 1)) :: rat) \<le> of_int n" "(of_int n :: rat) < of_int (2 ^ a)"
      by (simp_all only: of_int_le_iff of_int_less_iff of_nat_power of_nat_numeral)
    then show "(2 :: rat) powi (int a - 1) \<le> of_int n" "of_int n < (2 :: rat) powi int a"
      using a(3) by (simp_all add: power_int_def nat_diff_distrib)
  qed
  have rb: "(2 :: rat) powi (int b - 1) \<le> of_int d" "of_int d < (2 :: rat) powi int b"
  proof -
    have "int (2 ^ (b - 1)) \<le> d" "d < int (2 ^ b)" using b d by linarith+
    then have "(of_int (2 ^ (b - 1)) :: rat) \<le> of_int d" "(of_int d :: rat) < of_int (2 ^ b)"
      by (simp_all only: of_int_le_iff of_int_less_iff of_nat_power of_nat_numeral)
    then show "(2 :: rat) powi (int b - 1) \<le> of_int d" "of_int d < (2 :: rat) powi int b"
      using b(3) by (simp_all add: power_int_def nat_diff_distrib)
  qed
  have "(2 :: rat) powi (int a - 1) / 2 powi int b \<le> x"
    unfolding x using ra rb d by (intro frac_le) (simp_all add: n less_imp_le)
  moreover have "(2 :: rat) powi (int a - 1) / 2 powi int b = 2 powi (int a - 1 - int b)"
    by (rule power_int_diff [symmetric]) simp
  ultimately have lo: "2 powi (int a - int b - 1) \<le> x"
    by (simp add: algebra_simps)
  have "x < 2 powi int a / 2 powi (int b - 1)"
    unfolding x using ra rb d n by (intro frac_less) simp_all
  moreover have "(2 :: rat) powi int a / 2 powi (int b - 1) = 2 powi (int a - (int b - 1))"
    by (rule power_int_diff [symmetric]) simp
  ultimately have hi: "x < 2 powi (int a - int b + 1)"
    by (simp add: algebra_simps)
  show "2 powi ilog2 x \<le> x" "x < 2 powi (ilog2 x + 1)"
    using lo hi by (auto simp: ilog2_def nd Let_def a_def [symmetric] b_def [symmetric])
qed

lemma powi2_mono: "i \<le> j \<Longrightarrow> (2 :: rat) powi i \<le> 2 powi j"
  by (rule power_int_increasing) simp_all

lemma powi2_less_iff: "(2 :: rat) powi i < 2 powi j \<longleftrightarrow> i < j"
  using power_int_strict_increasing [of i j "2 :: rat"] powi2_mono [of j i]
  by (auto simp: not_less [symmetric])

lemma ilog2_eqI:
  assumes "2 powi e \<le> x" and "x < 2 powi (e + 1)"
  shows "ilog2 x = e"
proof -
  have "0 < x" using assms(1) by (rule less_le_trans [rotated]) simp
  from ilog2_bounds [OF this] assms
  have "(2 :: rat) powi e < 2 powi (ilog2 x + 1)" "(2 :: rat) powi ilog2 x < 2 powi (e + 1)"
    by linarith+
  then show ?thesis by (simp add: powi2_less_iff)
qed

lemma ilog2_mono: "0 < x \<Longrightarrow> x \<le> y \<Longrightarrow> ilog2 x \<le> ilog2 y"
  using ilog2_bounds [of x] ilog2_bounds [of y] powi2_less_iff [of "ilog2 x" "ilog2 y + 1"]
  by simp

section \<open>Rounding to an integer\<close>

lemma round_even_of_int [simp]: "round_even (of_int n) = n"
  by (simp add: round_even_def)

lemma round_even_numeral [simp]: "round_even (numeral k) = numeral k"
  using round_even_of_int [of "numeral k"] by simp

lemma round_even_err: "\<bar>of_int (round_even x) - x\<bar> \<le> 1 / 2"
  using floor_correct [of x] by (auto simp: round_even_def Let_def abs_le_iff)

lemma round_even_near:
  assumes "\<bar>x - of_int n\<bar> < 1 / 2"
  shows "round_even x = n"
proof -
  have "\<bar>(of_int (round_even x) :: rat) - of_int n\<bar> < 1"
    using assms round_even_err [of x] by linarith
  then have "\<bar>(of_int (round_even x - n) :: rat)\<bar> < 1" by simp
  then have "\<bar>round_even x - n\<bar> < 1" by linarith
  then show ?thesis by simp
qed

lemma round_even_mono:
  assumes "x \<le> y"
  shows "round_even x \<le> round_even y"
proof (cases "\<lfloor>x\<rfloor> = \<lfloor>y\<rfloor>")
  case True
  then show ?thesis using assms by (auto simp: round_even_def Let_def)
next
  case False
  then have "\<lfloor>x\<rfloor> + 1 \<le> \<lfloor>y\<rfloor>" using floor_mono [OF assms] by linarith
  then show ?thesis by (auto simp: round_even_def Let_def)
qed

lemma round_even_minus: "round_even (- x) = - round_even x"
proof (cases "x = of_int \<lfloor>x\<rfloor>")
  case True
  then obtain n where "x = of_int n" by blast
  then show ?thesis by (metis of_int_minus round_even_of_int)
next
  case False
  then have "\<lceil>x\<rceil> = \<lfloor>x\<rfloor> + 1" by (simp add: ceiling_altdef)
  then have "\<lfloor>- x\<rfloor> = - \<lfloor>x\<rfloor> - 1" by (simp add: floor_minus)
  then show ?thesis by (auto simp: round_even_def Let_def)
qed

section \<open>Rounding to 53 bits\<close>

lemma f64_round_0 [simp]: "f64_round 0 = 0"
  by (simp add: f64_round_def)

lemma f64_round_minus: "f64_round (- x) = - f64_round x"
  by (simp add: f64_round_def Let_def round_even_minus)

lemma powi2_pos [simp]: "0 < (2 :: rat) powi e"
  by (rule zero_less_power_int) simp

lemma powi2_add: "(2 :: rat) powi (i + j) = 2 powi i * 2 powi j"
  by (rule power_int_add) simp

text \<open>Rounding at the exponent that puts the mantissa between 2 to the 52 and 2 to the 53.\<close>

lemma f64_round_at:
  assumes "2 ^ 52 * 2 powi e \<le> x" and "x < 2 ^ 53 * 2 powi e"
  shows "f64_round x = of_int (round_even (x / 2 powi e)) * 2 powi e"
proof -
  have "0 < (2 :: rat) ^ 52 * 2 powi e" by simp
  then have pos: "0 < x" using assms(1) by linarith
  have "ilog2 x = e + 52"
  proof (rule ilog2_eqI)
    show "2 powi (e + 52) \<le> x" using assms(1) by (simp add: powi2_add mult.commute)
    show "x < 2 powi (e + 52 + 1)" using assms(2) by (simp add: powi2_add mult.commute)
  qed
  then show ?thesis using pos by (simp add: f64_round_def)
qed

lemma f64_exponent:
  assumes "0 < x"
  obtains e where "2 ^ 52 * 2 powi e \<le> x" and "x < 2 ^ 53 * 2 powi e"
    and "f64_round x = of_int (round_even (x / 2 powi e)) * 2 powi e"
proof -
  let ?e = "ilog2 x - 52"
  have "2 powi ilog2 x = 2 ^ 52 * (2 :: rat) powi ?e"
    by (simp add: power_int_diff)
  moreover have "2 powi (ilog2 x + 1) = 2 ^ 53 * (2 :: rat) powi ?e"
    by (simp add: power_int_diff power_int_add)
  ultimately have b: "2 ^ 52 * 2 powi ?e \<le> x" "x < 2 ^ 53 * 2 powi ?e"
    using ilog2_bounds [OF assms] by simp_all
  from that [OF b f64_round_at [OF b]] show thesis .
qed

lemma f64_round_pos_bounds:
  assumes "2 ^ 52 * 2 powi e \<le> x" and "x < 2 ^ 53 * 2 powi e"
  shows "2 ^ 52 * 2 powi e \<le> f64_round x" and "f64_round x \<le> 2 ^ 53 * 2 powi e"
proof -
  have "(2 :: rat) ^ 52 \<le> x / 2 powi e" "x / 2 powi e \<le> 2 ^ 53"
    using assms by (simp_all add: field_simps)
  then have "round_even (2 ^ 52) \<le> round_even (x / 2 powi e)"
    "round_even (x / 2 powi e) \<le> round_even (2 ^ 53)"
    by (auto intro!: round_even_mono simp del: power_numeral)
  then have "(2 :: int) ^ 52 \<le> round_even (x / 2 powi e)" "round_even (x / 2 powi e) \<le> 2 ^ 53"
    by simp_all
  then have "(of_int (2 ^ 52) :: rat) \<le> of_int (round_even (x / 2 powi e))"
    "of_int (round_even (x / 2 powi e)) \<le> (of_int (2 ^ 53) :: rat)"
    by (simp_all only: of_int_le_iff)
  then show "2 ^ 52 * 2 powi e \<le> f64_round x" "f64_round x \<le> 2 ^ 53 * 2 powi e"
    by (simp_all add: f64_round_at [OF assms])
qed

lemma f64_round_nonneg:
  assumes "0 \<le> x"
  shows "0 \<le> f64_round x"
proof (cases "x = 0")
  case False
  with assms have "0 < x" by simp
  then obtain e where e: "2 ^ 52 * 2 powi e \<le> x" "x < 2 ^ 53 * 2 powi e"
    by (rule f64_exponent)
  have "0 \<le> (2 :: rat) ^ 52 * 2 powi e" by simp
  also have "\<dots> \<le> f64_round x" using e by (rule f64_round_pos_bounds)
  finally show ?thesis .
qed simp

lemma f64_round_mono_pos:
  assumes "0 < x" and "x \<le> y"
  shows "f64_round x \<le> f64_round y"
proof -
  obtain e where e: "2 ^ 52 * 2 powi e \<le> x" "x < 2 ^ 53 * 2 powi e"
    "f64_round x = of_int (round_even (x / 2 powi e)) * 2 powi e"
    using assms(1) f64_exponent [of x] by blast
  obtain d where d: "2 ^ 52 * 2 powi d \<le> y" "y < 2 ^ 53 * 2 powi d"
    "f64_round y = of_int (round_even (y / 2 powi d)) * 2 powi d"
    using less_le_trans [OF assms] f64_exponent [of y] by blast
  have "2 ^ 52 * (2 :: rat) powi e < 2 ^ 52 * 2 powi (d + 1)"
    using e(1) d(2) assms(2) by (simp add: powi2_add)
  then have ed: "e \<le> d" by (simp add: powi2_less_iff)
  show ?thesis
  proof (cases "e = d")
    case True
    have "round_even (x / 2 powi d) \<le> round_even (y / 2 powi d)"
      using assms(2) by (intro round_even_mono divide_right_mono) simp_all
    then show ?thesis using e(3) d(3) True by simp
  next
    case False
    then have "(2 :: rat) powi (e + 1) \<le> 2 powi d" using ed by (intro powi2_mono) simp
    moreover have "f64_round x \<le> 2 ^ 53 * 2 powi e" using e(1,2) by (rule f64_round_pos_bounds)
    moreover have "2 ^ 52 * 2 powi d \<le> f64_round y" using d(1,2) by (rule f64_round_pos_bounds)
    ultimately show ?thesis by (simp add: powi2_add)
  qed
qed

lemma f64_round_mono: "x \<le> y \<Longrightarrow> f64_round x \<le> f64_round y"
  using f64_round_mono_pos [of x y] f64_round_mono_pos [of "- y" "- x"]
    f64_round_nonneg [of y] f64_round_nonneg [of "- x"]
  by (cases "0 < x"; cases "y < 0") (auto simp: f64_round_minus)

lemma f64_round_err: "\<bar>f64_round x - x\<bar> \<le> \<bar>x\<bar> / 2 ^ 53"
proof -
  have pos: "\<bar>f64_round x - x\<bar> \<le> x / 2 ^ 53" if x: "0 < x" for x
  proof -
    obtain e where e: "2 ^ 52 * 2 powi e \<le> x" "x < 2 ^ 53 * 2 powi e"
      "f64_round x = of_int (round_even (x / 2 powi e)) * 2 powi e"
      using f64_exponent [OF x] by blast
    have "f64_round x - x = (of_int (round_even (x / 2 powi e)) - x / 2 powi e) * 2 powi e"
      unfolding e(3) by (simp add: field_simps)
    then have "\<bar>f64_round x - x\<bar> \<le> 1 / 2 * 2 powi e"
      using mult_right_mono [OF round_even_err [of "x / 2 powi e"], of "2 powi e"]
      by (simp add: abs_mult)
    also have "\<dots> \<le> x / 2 ^ 53" using e(1) by simp
    finally show ?thesis .
  qed
  show ?thesis
    using pos [of x] pos [of "- x"] by (cases "x = 0"; cases "0 < x") (auto simp: f64_round_minus abs_minus_commute)
qed

text \<open>Short mantissas are exact, and a value close to an integer below 2 to the 53 rounds to it.\<close>

lemma f64_round_exact_lt:
  assumes "\<bar>m\<bar> < 2 ^ 53"
  shows "f64_round (of_int m * 2 powi k) = of_int m * 2 powi k"
proof -
  have pos: "f64_round (of_int m * 2 powi k) = of_int m * 2 powi k" if m: "0 < m" "m < 2 ^ 53" for m
  proof -
    have "0 < (of_int m :: rat) * 2 powi k" using m by simp
    then obtain e where e: "2 ^ 52 * 2 powi e \<le> (of_int m :: rat) * 2 powi k"
      "f64_round (of_int m * 2 powi k) = of_int (round_even (of_int m * 2 powi k / 2 powi e)) * 2 powi e"
      using f64_exponent [of "of_int m * 2 powi k"] by blast
    have "(of_int m :: rat) < 2 ^ 53"
      using m(2) of_int_less_iff [of m "2 ^ 53", where 'a = rat] by simp
    then have "(of_int m :: rat) * 2 powi k < 2 ^ 53 * 2 powi k"
      by (rule mult_strict_right_mono) simp
    with e(1) have "(2 :: rat) ^ 52 * 2 powi e < 2 ^ 53 * 2 powi k" by (rule le_less_trans)
    also have "\<dots> = 2 ^ 52 * 2 powi (k + 1)" by (simp add: powi2_add)
    finally have "e < k + 1" by (simp only: mult_less_cancel_left_pos zero_less_power
        zero_less_numeral powi2_less_iff)
    then have "e \<le> k" by simp
    have "(2 :: rat) powi k = 2 powi (k - e) * 2 powi e" by (simp flip: powi2_add)
    also have "(2 :: rat) powi (k - e) = 2 ^ nat (k - e)" using \<open>e \<le> k\<close> by (simp add: power_int_def)
    finally have pk: "(2 :: rat) powi k = 2 ^ nat (k - e) * 2 powi e" .
    then have "(of_int m :: rat) * 2 powi k / 2 powi e = of_int (m * 2 ^ nat (k - e))"
      by simp
    with e(2) have "f64_round (of_int m * 2 powi k) = of_int (m * 2 ^ nat (k - e)) * 2 powi e"
      by (simp only: round_even_of_int)
    then show ?thesis by (simp add: pk)
  qed
  show ?thesis
    using pos [of m] pos [of "- m"] assms
    by (cases "m = 0"; cases "0 < m") (auto simp: f64_round_minus)
qed

lemma f64_round_exact:
  assumes "\<bar>m\<bar> \<le> 2 ^ 53"
  shows "f64_round (of_int m * 2 powi k) = of_int m * 2 powi k"
proof (cases "\<bar>m\<bar> = 2 ^ 53")
  case True
  define c :: int where "c = (if 0 < m then 1 else - 1)"
  have m: "m = c * 2 ^ 53" using True by (auto simp: c_def)
  have "(of_int m :: rat) * 2 powi k = of_int c * 2 powi (k + 53)"
    unfolding m by (simp add: powi2_add)
  then show ?thesis using f64_round_exact_lt [of c "k + 53"] by (simp add: c_def)
next
  case False
  then show ?thesis using assms by (intro f64_round_exact_lt) linarith
qed

lemma f64_round_snap:
  assumes n: "0 < n" "n \<le> 2 ^ 53"
    and lo: "of_int n - of_int n / 2 ^ 54 < x" and hi: "x \<le> of_int n + of_int n / 2 ^ 54"
  shows "f64_round x = of_int n"
proof -
  let ?n = "of_int n :: rat"
  have n1: "1 \<le> ?n" "?n \<le> 2 ^ 53" using n of_int_le_iff [of n "2 ^ 53", where 'a = rat] by simp_all
  have "0 < x" using lo n1 by simp
  then obtain e where e: "2 ^ 52 * 2 powi e \<le> x" "x < 2 ^ 53 * 2 powi e"
    "f64_round x = of_int (round_even (x / 2 powi e)) * 2 powi e"
    using f64_exponent [of x] by blast
  obtain q where q: "?n = of_int q * 2 powi e"
  proof (cases "e \<le> 0")
    case True
    then have "(2 :: rat) powi - e = of_int (2 ^ nat (- e))" by (simp add: power_int_def)
    then have "?n = of_int (n * 2 ^ nat (- e)) * 2 powi e"
      by (simp add: power_int_minus field_simps)
    then show thesis by (rule that)
  next
    case False
    then have "(2 :: rat) powi 1 \<le> 2 powi e" by (intro powi2_mono) simp
    then have e53: "(2 :: rat) ^ 53 \<le> x" using e(1) by simp
    have "(2 :: rat) powi e < 2 powi 2" using e(1) hi n1 by simp
    then have "e < 2" by (rule powi2_less_iff [THEN iffD1])
    then have "e = 1" using False by simp
    have "(of_int (2 ^ 53) :: rat) < of_int (n + 1)" using e53 hi n1 by simp
    then have "n = 2 ^ 53" using n(2) by (simp only: of_int_less_iff)
    then show thesis using that [of "2 ^ 52"] \<open>e = 1\<close> by simp
  qed
  have qle: "q \<le> 2 ^ 53"
  proof (rule ccontr)
    assume "\<not> q \<le> 2 ^ 53"
    then have "(of_int (2 ^ 53 + 1) :: rat) \<le> of_int q" by (simp only: of_int_le_iff)
    then have "(2 ^ 53 + 1) * 2 powi e \<le> ?n" unfolding q by simp
    then show False using lo e(2) powi2_pos [of e] by simp
  qed
  then have q53: "(of_int q :: rat) \<le> 2 ^ 53" using of_int_le_iff [of q "2 ^ 53", where 'a = rat] by simp
  have "\<bar>x / 2 powi e - of_int q\<bar> < 1 / 2"
  proof -
    have "x - ?n < 2 powi e / 2"
    proof (cases "x \<le> ?n")
      case True
      then have "x - ?n \<le> 0" by simp
      also have "0 < (2 :: rat) powi e / 2" by simp
      finally show ?thesis .
    qed (use hi e(2) in simp)
    moreover have "?n - x < 2 powi e / 2"
    proof -
      have "?n \<le> 2 ^ 53 * 2 powi e" unfolding q using q53 by (rule mult_right_mono) simp
      then show ?thesis using lo by simp
    qed
    ultimately have "x / 2 powi e - ?n / 2 powi e < 1 / 2" "?n / 2 powi e - x / 2 powi e < 1 / 2"
      by (simp_all flip: diff_divide_distrib add: divide_less_eq)
    moreover have "?n / 2 powi e = of_int q" using q by simp
    ultimately show ?thesis unfolding abs_less_iff by linarith
  qed
  then show ?thesis using e(3) q by (simp add: round_even_near)
qed

text \<open>Evaluation: the mantissa \<open>m\<close> of \<open>n / d\<close> at \<open>k\<close> binary places, checked over the integers.\<close>

lemma f64_round_eval:
  fixes n d m :: int
  assumes d: "0 < d" and lo: "2 ^ 52 * d \<le> n * 2 ^ k" and hi: "n * 2 ^ k < 2 ^ 53 * d"
    and m: "2 * \<bar>n * 2 ^ k - m * d\<bar> < d"
  shows "f64_round (of_int n / of_int d) = of_int m / 2 ^ k"
proof -
  let ?x = "of_int n / of_int d :: rat" and ?e = "- int k"
  have p: "(2 :: rat) powi ?e = 1 / 2 ^ k" by (simp add: power_int_minus divide_inverse)
  have dpos: "0 < (of_int d :: rat)" using d by simp
  have "(of_int (2 ^ 52 * d) :: rat) \<le> of_int (n * 2 ^ k)"
    "(of_int (n * 2 ^ k) :: rat) < of_int (2 ^ 53 * d)"
    "(of_int (2 * \<bar>n * 2 ^ k - m * d\<bar>) :: rat) < of_int d"
    using lo hi m by (simp_all only: of_int_le_iff of_int_less_iff)
  then have r: "2 ^ 52 * of_int d \<le> (of_int n * 2 ^ k :: rat)" "(of_int n * 2 ^ k :: rat) < 2 ^ 53 * of_int d"
    "2 * \<bar>of_int n * 2 ^ k - of_int m * of_int d\<bar> < (of_int d :: rat)"
    by simp_all
  have "f64_round ?x = of_int (round_even (?x / 2 powi ?e)) * 2 powi ?e"
    using r(1,2) dpos by (intro f64_round_at) (simp_all add: p field_simps)
  also have "round_even (?x / 2 powi ?e) = m"
  proof (rule round_even_near)
    have "?x / 2 powi ?e - of_int m = (of_int n * 2 ^ k - of_int m * of_int d) / of_int d"
      using dpos by (simp add: p field_simps)
    then have "\<bar>?x / 2 powi ?e - of_int m\<bar> = \<bar>of_int n * 2 ^ k - of_int m * of_int d\<bar> / of_int d"
      using dpos by simp
    then show "\<bar>?x / 2 powi ?e - of_int m\<bar> < 1 / 2" using r(3) dpos by (simp add: divide_less_eq)
  qed
  finally show ?thesis by (simp add: p)
qed

section \<open>The contract the components use\<close>

lemma near_quotient:
  fixes v q f g y :: rat
  assumes "v - v / 2 ^ 52 \<le> y" "y \<le> v + v / 2 ^ 52" "v = q + f" "g \<le> f" "f \<le> 1 - g"
    and "v / 2 ^ 50 < g" "0 \<le> v"
  shows "q \<le> y" and "y + y / 2 ^ 53 < q + 1"
proof -
  define w where "w = v / 2 ^ 53"
  have w: "0 \<le> w" "v / 2 ^ 52 = 2 * w" "v / 2 ^ 50 = 8 * w" "v / 2 ^ 53 = w"
    using assms(7) by (simp_all add: w_def)
  then show "q \<le> y" using assms by linarith
  have "y / 2 ^ 53 \<le> (2 * v) / 2 ^ 53"
    using assms(2,7) by (intro divide_right_mono) simp_all
  then have "y / 2 ^ 53 \<le> 2 * w" by (simp add: w_def)
  then show "y + y / 2 ^ 53 < q + 1" using assms w by linarith
qed

locale rounding =
  fixes rnd :: "rat \<Rightarrow> rat"
  assumes mono: "x \<le> y \<Longrightarrow> rnd x \<le> rnd y"
    and exact: "\<bar>m\<bar> \<le> 2 ^ 53 \<Longrightarrow> rnd (of_int m * 2 powi k) = of_int m * 2 powi k"
    and err: "\<bar>rnd x - x\<bar> \<le> \<bar>x\<bar> / 2 ^ 53"
    and snap: "0 < n \<Longrightarrow> n \<le> 2 ^ 53 \<Longrightarrow> of_int n - of_int n / 2 ^ 54 < x \<Longrightarrow>
      x \<le> of_int n + of_int n / 2 ^ 54 \<Longrightarrow> rnd x = of_int n"
begin

lemma of_int: "\<bar>n\<bar> \<le> 2 ^ 53 \<Longrightarrow> rnd (of_int n) = of_int n"
  using exact [of n 0] by simp

lemma nonneg: "0 \<le> x \<Longrightarrow> 0 \<le> rnd x"
  using mono [of 0 x] of_int [of 0] by simp

lemma le_int: "x \<le> of_int n \<Longrightarrow> \<bar>n\<bar> \<le> 2 ^ 53 \<Longrightarrow> rnd x \<le> of_int n"
  using mono [of x "of_int n"] of_int [of n] by simp

lemma ge_int: "of_int n \<le> x \<Longrightarrow> \<bar>n\<bar> \<le> 2 ^ 53 \<Longrightarrow> of_int n \<le> rnd x"
  using mono [of "of_int n" x] of_int [of n] by simp

lemma upper: "0 \<le> x \<Longrightarrow> rnd x \<le> x + x / 2 ^ 53"
  using err [of x] by (simp only: abs_le_iff abs_of_nonneg) linarith

lemma lower: "0 \<le> x \<Longrightarrow> x - x / 2 ^ 53 \<le> rnd x"
  using err [of x] by (simp only: abs_le_iff abs_of_nonneg) linarith

text \<open>
  Truncating the rounding of an approximation of \<open>a / b\<close> gives the integer quotient, when \<open>b\<close>
  does not divide \<open>a\<close> and the approximation is within a relative error of 2 to the -52.
\<close>

lemma floor_div_not_dvd:
  assumes a: "0 \<le> a" "a < 2 ^ 50" and b: "0 < b" "\<not> b dvd a"
    and y: "\<bar>y - of_int a / of_int b\<bar> \<le> of_int a / of_int b / 2 ^ 52"
  shows "\<lfloor>rnd y\<rfloor> = a div b"
proof -
  let ?q = "of_int (a div b) :: rat" and ?v = "of_int a / of_int b :: rat" and ?b = "of_int b :: rat"
  define r where "r = a mod b"
  have "r \<noteq> 0" using b by (simp add: r_def dvd_eq_mod_eq_0)
  then have r: "0 < r" "r < b"
    using b pos_mod_bound [of b a] pos_mod_sign [of b a] unfolding r_def by linarith+
  have ar: "a div b * b + r = a" by (simp add: r_def)
  have bpos: "0 < ?b" using b by simp
  have "(of_int a :: rat) = ?q * ?b + of_int r"
    by (simp only: ar flip: of_int_add of_int_mult)
  then have v: "?v = ?q + of_int r / ?b"
    using bpos by (simp add: add_divide_distrib)
  have r1: "1 / ?b \<le> of_int r / ?b" "of_int r / ?b \<le> 1 - 1 / ?b"
  proof -
    have "1 \<le> r" "r \<le> b - 1" using r by simp_all
    then have "(of_int 1 :: rat) \<le> of_int r" "(of_int r :: rat) \<le> of_int (b - 1)"
      by (simp_all only: of_int_le_iff)
    then show "1 / ?b \<le> of_int r / ?b" "of_int r / ?b \<le> 1 - 1 / ?b"
      using bpos by (simp_all add: field_simps)
  qed
  have "(of_int a :: rat) < 2 ^ 50" using a(2) of_int_less_iff [of a "2 ^ 50", where 'a = rat] by simp
  then have small: "?v / 2 ^ 50 < 1 / ?b" using bpos by (simp add: field_simps)
  have v0: "0 \<le> ?v" using a bpos by simp
  have q: "0 \<le> a div b" "a div b < 2 ^ 50"
    using a b by (simp_all add: pos_imp_zdiv_nonneg_iff) (use zdiv_mono2 [of a 1 b] in simp)
  have "?v - ?v / 2 ^ 52 \<le> y" "y \<le> ?v + ?v / 2 ^ 52" using y by (simp_all add: abs_le_iff)
  from near_quotient [OF this v r1 small v0]
  have "?q \<le> y" and y_hi: "y + y / 2 ^ 53 < ?q + 1" .
  then have "?q \<le> rnd y" using q by (intro ge_int) simp_all
  moreover have "rnd y < ?q + 1"
    using upper [of y] y_hi \<open>?q \<le> y\<close> q by (simp add: order_trans [of 0 ?q y])
  ultimately show ?thesis by (simp add: floor_eq_iff)
qed

lemma floor_div_dvd:
  assumes "0 \<le> a" "a < 2 ^ 50" "0 < b" "b dvd a"
    and "of_int a / of_int b - of_int a / of_int b / 2 ^ 54 < y \<or> a = 0 \<and> y = 0"
    and "y \<le> of_int a / of_int b + of_int a / of_int b / 2 ^ 54"
  shows "\<lfloor>rnd y\<rfloor> = a div b"
proof -
  have q: "of_int a / of_int b = (of_int (a div b) :: rat)"
    using assms(4) by (rule of_int_div [symmetric])
  have "a div b < 2 ^ 50" using assms zdiv_mono2 [of a 1 b] by simp
  moreover have "0 < a \<Longrightarrow> 0 < a div b"
    using assms by (simp add: pos_imp_zdiv_pos_iff zdvd_imp_le)
  ultimately show ?thesis
    using assms snap [of "a div b" y] of_int [of 0] unfolding q by (cases "a = 0") auto
qed

end

interpretation f64: rounding f64_round
  by unfold_locales (rule f64_round_mono f64_round_exact f64_round_err f64_round_snap; assumption)+

lemma f64_to_int_floor: "0 \<le> x \<Longrightarrow> \<lfloor>x\<rfloor> < 2 ^ 63 \<Longrightarrow> f64_to_int x = \<lfloor>x\<rfloor>"
  by (simp add: f64_to_int_def Let_def order_trans [of "- (2 ^ 63)" 0])

lemma f64_of_int_exact: "\<bar>n\<bar> \<le> 2 ^ 53 \<Longrightarrow> f64_of_int n = of_int n"
  by (simp add: f64_of_int_def f64.of_int)

end
