(* ===== verification/RT_Validator.thy ===== *)
theory RT_Validator
  imports McKube_Types Float64
begin

text \<open>
  The validating webhook, \<open>internal/webhook/rt_validator.go\<close>: the checks on the RT settings of a
  pod's McKube resource, and the handler around them. The API server's answer to the list call and
  the decoded pod are arguments of the handler. The main fact is that the check the code makes in
  floating point is an exact integer inequality.
\<close>

section \<open>The checks\<close>

datatype rt_error =
    PeriodNotPositive int
  | RuntimeLowNotPositive int
  | RuntimeLowAbovePeriod int int
  | RuntimeHiNotPositive int
  | RuntimeHiAbovePeriod int int
  | RuntimeLowAboveHi int int
  | RuntimeHiAboveMax int int int
  | CoreEmpty

definition maxRuntime :: "int \<Rightarrow> int" where
  "maxRuntime period = f64_to_int (f64_mul (f64_of_int period) (f64_round (95 / 100)))"

definition validateRTSettings :: "RTSettings \<Rightarrow> rt_error option" where
  "validateRTSettings s =
     (if Period s \<le> 0 then Some (PeriodNotPositive (Period s))
      else if RuntimeLow s \<le> 0 then Some (RuntimeLowNotPositive (RuntimeLow s))
      else if RuntimeLow s > Period s then Some (RuntimeLowAbovePeriod (RuntimeLow s) (Period s))
      else if RuntimeHi s \<le> 0 then Some (RuntimeHiNotPositive (RuntimeHi s))
      else if RuntimeHi s > Period s then Some (RuntimeHiAbovePeriod (RuntimeHi s) (Period s))
      else if RuntimeLow s > RuntimeHi s then Some (RuntimeLowAboveHi (RuntimeLow s) (RuntimeHi s))
      else if RuntimeHi s > maxRuntime (Period s)
        then Some (RuntimeHiAboveMax (RuntimeHi s) (Period s) (maxRuntime (Period s)))
      else (case Core s of
          None \<Rightarrow> None
        | Some c \<Rightarrow> if c \<noteq> '''' then (if length c = 0 then Some CoreEmpty else None) else None))"

section \<open>The handler\<close>

datatype admission =
    Allowed string
  | DeniedRT rt_error
  | Errored int go_error
  | Patched Pod

text \<open>\<open>findRTSettingsForPod\<close>: the webhooks want a match that has RT settings.\<close>

definition findRTSettingsForPod :: "Pod \<Rightarrow> McKube list \<Rightarrow> RTSettings option" where
  "findRTSettingsForPod pod items =
     (case find (\<lambda>m. PodName (Spec m) = pod_Name pod \<and> RTSettings (Spec m) \<noteq> None) items of
        None \<Rightarrow> None
      | Some m \<Rightarrow> RTSettings (Spec m))"

definition validator_Handle ::
    "(string \<Rightarrow> go_error + McKube list) \<Rightarrow> go_error + Pod \<Rightarrow> admission" where
  "validator_Handle list_mckubes decoded =
     (case decoded of
        Inl e \<Rightarrow> Errored 400 e
      | Inr pod \<Rightarrow>
          (case list_mckubes (pod_Namespace pod) of
             Inl e \<Rightarrow> Allowed ''No RT settings found, allowing pod creation''
           | Inr items \<Rightarrow>
               (case findRTSettingsForPod pod items of
                  None \<Rightarrow> Allowed ''No RT settings configured, allowing pod creation''
                | Some s \<Rightarrow>
                    (case validateRTSettings s of
                       Some e \<Rightarrow> DeniedRT e
                     | None \<Rightarrow> Allowed ''RT settings are valid, pod creation allowed''))))"

section \<open>The bound of 95 percent\<close>

lemma f64_095: "f64_round (95 / 100) = 4278419646001971 / 2 ^ 52"
  using f64_round_eval [of 20 19 53 8556839292003942] by simp

lemma maxRuntime_eq:
  assumes "0 \<le> p" and "p < 2 ^ 45"
  shows "maxRuntime p = 19 * p div 20"
proof -
  let ?c = "4278419646001971 / 2 ^ 52 :: rat"
  let ?v = "of_int (19 * p) / of_int 20 :: rat" and ?y = "of_int p * ?c"
  have a: "0 \<le> 19 * p" "19 * p < 2 ^ 50" using assms by simp_all
  have p: "0 \<le> (of_int p :: rat)" using assms by simp
  have "\<lfloor>f64_round ?y\<rfloor> = 19 * p div 20"
  proof (cases "20 dvd 19 * p")
    case True
    then show ?thesis
      using a p by (intro f64.floor_div_dvd) (auto simp: less_le)
  next
    case False
    then show ?thesis
      using a p by (intro f64.floor_div_not_dvd) (simp_all add: abs_if)
  qed
  moreover have "0 \<le> f64_round ?y" using p by (intro f64.nonneg) simp
  moreover have "19 * p div 20 < 2 ^ 63" using a by simp
  ultimately have "f64_to_int (f64_round ?y) = 19 * p div 20" by (simp add: f64_to_int_floor)
  moreover have "f64_of_int p = of_int p" using assms by (simp add: f64_of_int_exact)
  ultimately show ?thesis by (simp only: maxRuntime_def f64_mul_def f64_095)
qed

lemma validate_iff:
  assumes "Period s < 2 ^ 45"
  shows "validateRTSettings s = None \<longleftrightarrow>
    0 < Period s \<and> 0 < RuntimeLow s \<and> RuntimeLow s \<le> RuntimeHi s \<and> 20 * RuntimeHi s \<le> 19 * Period s"
proof (cases "0 < Period s")
  case True
  then have "maxRuntime (Period s) = 19 * Period s div 20"
    using assms by (intro maxRuntime_eq) simp_all
  then show ?thesis
    using True by (auto simp: validateRTSettings_def split: option.splits)
next
  case False
  then show ?thesis by (simp add: validateRTSettings_def)
qed

section \<open>Properties\<close>

text \<open>
  C30: the validator accepts RT settings exactly when the period and the low runtime are positive,
  the low runtime is at most the high one, and the high runtime is at most 95 percent of the
  period, as exact integers: the truncated float product in the code loses nothing for periods
  below 2 to the 45 microseconds. Equal runtimes are accepted, which the notes of
  \<open>docs/RUNTIME_ESCALATION.md\<close> exclude.
\<close>

theorem validateRTSettings_iff:
  assumes "Period s < 2 ^ 45"
  shows "validateRTSettings s = None \<longleftrightarrow>
    0 < Period s \<and> 0 < RuntimeLow s \<and> RuntimeLow s \<le> RuntimeHi s \<and> 20 * RuntimeHi s \<le> 19 * Period s"
  using assms by (rule validate_iff)

theorem validateRTSettings_iff_witness:
  "validateRTSettings \<lparr>Period = 1000000, RuntimeLow = 300000, RuntimeHi = 950000, Core = Some ''2-3''\<rparr> = None \<and>
   validateRTSettings \<lparr>Period = 1000000, RuntimeLow = 300000, RuntimeHi = 300000, Core = None\<rparr> = None"
  by (subst (1 2) validateRTSettings_iff) simp_all

end
