(* ===== verification/CPU_Pool.thy ===== *)
theory CPU_Pool
  imports McKube_Types Float64
begin

text \<open>
  The CPU pool of \<open>internal/controller/mckube_controller.go\<close>: per node a map from core numbers to
  the millicores in use and the pods registered on the core. The order in which Go ranges over a map
  is an argument of the operations whose result can depend on it. The contract of registration
  (\<open>core_ledger\<close>) measures the \<^emph>\<open>drift\<close> of a core: its recorded usage minus what its registered
  pods add up to. A removal never changes it; an addition changes it exactly when it overwrites a
  registration.
\<close>

section \<open>Data\<close>

record PodInfo =
  pi_Name :: string
  pi_Namespace :: string
  pi_Criticality :: string
  CPUMillis :: int64
  CoreSet :: "int list"

record CPUCoreInfo =
  CoreID :: int
  UsageMillis :: int64
  Pods :: "(string, PodInfo) gomap"

record CPUPool =
  pool_NodeName :: string
  Cores :: "(int, CPUCoreInfo) gomap"

section \<open>Operations\<close>

definition new_pool :: "string \<Rightarrow> int \<Rightarrow> CPUPool" where
  "new_pool nodeName numCores =
     \<lparr>pool_NodeName = nodeName,
      Cores = map (\<lambda>i. (i, \<lparr>CoreID = i, UsageMillis = 0, Pods = []\<rparr>)) [0..numCores - 1]\<rparr>"

definition getOrCreateCPUPool ::
    "string \<Rightarrow> int \<Rightarrow> (string, CPUPool) gomap \<Rightarrow> CPUPool \<times> (string, CPUPool) gomap" where
  "getOrCreateCPUPool nodeName numCores pools =
     (case map_of pools nodeName of
        Some pool \<Rightarrow> (pool, pools)
      | None \<Rightarrow> (let pool = new_pool nodeName numCores in (pool, gm_put nodeName pool pools)))"

definition getCoreUtilization :: "CPUPool \<Rightarrow> int \<Rightarrow> rat" where
  "getCoreUtilization p coreID =
     (case map_of (Cores p) coreID of
        None \<Rightarrow> 0
      | Some core \<Rightarrow> f64_div (f64_of_int (sint (UsageMillis core))) 1000)"

definition addPodToCore :: "int \<Rightarrow> PodInfo \<Rightarrow> CPUPool \<Rightarrow> CPUPool" where
  "addPodToCore coreID pod p =
     (case map_of (Cores p) coreID of
        None \<Rightarrow> p
      | Some core \<Rightarrow>
          p\<lparr>Cores := gm_put coreID
             (core\<lparr>Pods := gm_put (pi_Name pod) pod (Pods core),
                   UsageMillis := UsageMillis core + CPUMillis pod\<rparr>) (Cores p)\<rparr>)"

definition removePodFromCore :: "int \<Rightarrow> string \<Rightarrow> CPUPool \<Rightarrow> CPUPool" where
  "removePodFromCore coreID podName p =
     (case map_of (Cores p) coreID of
        None \<Rightarrow> p
      | Some core \<Rightarrow>
          (case map_of (Pods core) podName of
             None \<Rightarrow> p
           | Some pod \<Rightarrow>
               p\<lparr>Cores := gm_put coreID
                  (core\<lparr>UsageMillis := UsageMillis core - CPUMillis pod,
                        Pods := gm_del podName (Pods core)\<rparr>) (Cores p)\<rparr>))"

definition getPodsOnCore :: "(string \<times> PodInfo) order \<Rightarrow> CPUPool \<Rightarrow> int \<Rightarrow> PodInfo list" where
  "getPodsOnCore ord p coreID =
     (case map_of (Cores p) coreID of None \<Rightarrow> [] | Some core \<Rightarrow> map snd (ord (Pods core)))"

fun least_loop :: "(int \<times> CPUCoreInfo) list \<Rightarrow> int \<Rightarrow> int \<Rightarrow> int" where
  "least_loop [] minCore minUsage = minCore"
| "least_loop ((coreID, core) # cs) minCore minUsage =
     (if sint (UsageMillis core) < minUsage then least_loop cs coreID (sint (UsageMillis core))
      else least_loop cs minCore minUsage)"

definition findLeastLoadedCore :: "(int \<times> CPUCoreInfo) order \<Rightarrow> CPUPool \<Rightarrow> int" where
  "findLeastLoadedCore ord p = least_loop (ord (Cores p)) (- 1) max_int64"

text \<open>
  The loops of \<open>cleanupPodState\<close>: every core of every pool drops the pod. Each pass of a loop
  touches only the entry it is at, so the order does not matter.
\<close>

definition clean_core :: "string \<Rightarrow> CPUCoreInfo \<Rightarrow> CPUCoreInfo" where
  "clean_core podName core =
     (case map_of (Pods core) podName of
        None \<Rightarrow> core
      | Some podInfo \<Rightarrow>
          core\<lparr>UsageMillis := UsageMillis core - CPUMillis podInfo, Pods := gm_del podName (Pods core)\<rparr>)"

definition clean_pool :: "string \<Rightarrow> CPUPool \<Rightarrow> CPUPool" where
  "clean_pool podName p = p\<lparr>Cores := map (\<lambda>(i, core). (i, clean_core podName core)) (Cores p)\<rparr>"

definition clean_pools :: "string \<Rightarrow> (string, CPUPool) gomap \<Rightarrow> (string, CPUPool) gomap" where
  "clean_pools podName pools = map (\<lambda>(n, p). (n, clean_pool podName p)) pools"

section \<open>Well-formed pools\<close>

definition core_ok :: "int \<Rightarrow> CPUCoreInfo \<Rightarrow> bool" where
  "core_ok i c \<longleftrightarrow> CoreID c = i \<and> gm_ok (Pods c) \<and> (\<forall>(n, v) \<in> set (Pods c). pi_Name v = n)"

definition pool_ok :: "CPUPool \<Rightarrow> bool" where
  "pool_ok p \<longleftrightarrow> gm_ok (Cores p) \<and> (\<forall>(i, c) \<in> set (Cores p). core_ok i c)"

definition pods_on :: "CPUPool \<Rightarrow> int \<Rightarrow> (string, PodInfo) gomap" where
  "pods_on p i = (case map_of (Cores p) i of None \<Rightarrow> [] | Some c \<Rightarrow> Pods c)"

definition registered :: "CPUPool \<Rightarrow> int \<Rightarrow> string \<Rightarrow> PodInfo option" where
  "registered p i n = map_of (pods_on p i) n"

definition usage :: "CPUPool \<Rightarrow> int \<Rightarrow> int64" where
  "usage p i = (case map_of (Cores p) i of None \<Rightarrow> 0 | Some c \<Rightarrow> UsageMillis c)"

definition booked :: "CPUPool \<Rightarrow> int \<Rightarrow> int64" where
  "booked p i = entries_total CPUMillis (pods_on p i)"

definition has_core :: "CPUPool \<Rightarrow> int \<Rightarrow> bool" where
  "has_core p i \<longleftrightarrow> map_of (Cores p) i \<noteq> None"

definition balanced :: "CPUPool \<Rightarrow> bool" where
  "balanced p \<longleftrightarrow> (\<forall>i. usage p i = booked p i)"

lemmas pool_defs = registered_def usage_def booked_def pods_on_def has_core_def

lemma core_ok_iff:
  "core_ok i c \<longleftrightarrow>
   CoreID c = i \<and> gm_ok (Pods c) \<and> (\<forall>n v. map_of (Pods c) n = Some v \<longrightarrow> pi_Name v = n)"
  by (auto simp: core_ok_def gm_all_iff)

lemma pool_ok_iff:
  "pool_ok p \<longleftrightarrow> gm_ok (Cores p) \<and> (\<forall>i c. map_of (Cores p) i = Some c \<longrightarrow> core_ok i c)"
  by (auto simp: pool_ok_def gm_all_iff)

lemma pool_okD: "pool_ok p \<Longrightarrow> map_of (Cores p) i = Some c \<Longrightarrow> core_ok i c"
  by (simp add: pool_ok_iff)

lemma pool_ok_put: "pool_ok p \<Longrightarrow> core_ok i c \<Longrightarrow> pool_ok (p\<lparr>Cores := gm_put i c (Cores p)\<rparr>)"
  by (simp add: pool_ok_iff)

lemma pool_ok_pods: "pool_ok p \<Longrightarrow> gm_ok (pods_on p i)"
  by (auto simp: pool_ok_iff core_ok_iff pods_on_def split: option.splits)

lemma registered_name: "pool_ok p \<Longrightarrow> registered p i n = Some v \<Longrightarrow> pi_Name v = n"
  by (auto simp: pool_ok_iff core_ok_iff pool_defs split: option.splits)

lemma pool_ok_new: "pool_ok (new_pool n k)"
  by (auto simp: pool_ok_def new_pool_def core_ok_def comp_def)

lemma core_ok_add:
  "core_ok i c \<Longrightarrow>
   core_ok i (c\<lparr>Pods := gm_put (pi_Name v) v (Pods c), UsageMillis := u\<rparr>)"
  by (simp add: core_ok_iff)

lemma core_ok_del: "core_ok i c \<Longrightarrow> core_ok i (c\<lparr>UsageMillis := u, Pods := gm_del n (Pods c)\<rparr>)"
  by (simp add: core_ok_iff)

lemma pool_ok_add: "pool_ok p \<Longrightarrow> pool_ok (addPodToCore i v p)"
  by (auto simp: addPodToCore_def split: option.splits intro: pool_ok_put core_ok_add pool_okD)

lemma pool_ok_remove: "pool_ok p \<Longrightarrow> pool_ok (removePodFromCore i n p)"
  by (auto simp: removePodFromCore_def split: option.splits intro: pool_ok_put core_ok_del pool_okD)

section \<open>What registration does to a core\<close>

definition cpu_of :: "PodInfo option \<Rightarrow> int64" where
  "cpu_of x = (case x of None \<Rightarrow> 0 | Some v \<Rightarrow> CPUMillis v)"

lemma has_core_add [simp]: "has_core (addPodToCore i v p) j = has_core p j"
  by (auto simp: addPodToCore_def has_core_def split: option.splits)

lemma has_core_remove [simp]: "has_core (removePodFromCore i n p) j = has_core p j"
  by (auto simp: removePodFromCore_def has_core_def split: option.splits)

lemma registered_add:
  "registered (addPodToCore i v p) j n =
   (if has_core p i \<and> j = i \<and> n = pi_Name v then Some v else registered p j n)"
  by (auto simp: addPodToCore_def pool_defs split: option.splits)

lemma registered_remove:
  "registered (removePodFromCore i n p) j m = (if j = i \<and> m = n then None else registered p j m)"
  by (auto simp: removePodFromCore_def pool_defs split: option.splits)

lemma usage_add:
  "usage (addPodToCore i v p) j = usage p j + (if has_core p i \<and> j = i then CPUMillis v else 0)"
  by (auto simp: addPodToCore_def pool_defs split: option.splits)

lemma usage_remove:
  "usage (removePodFromCore i n p) j = usage p j - (if j = i then cpu_of (registered p i n) else 0)"
  by (auto simp: removePodFromCore_def pool_defs cpu_of_def split: option.splits)

lemma booked_put:
  assumes "gm_ok m"
  shows "entries_total CPUMillis (gm_put n v m) =
    entries_total CPUMillis m - cpu_of (map_of m n) + CPUMillis v"
  using assms gm.total_put_new [of m n CPUMillis v] gm.total_put_old [of m n _ CPUMillis v]
  by (cases "map_of m n") (simp_all add: cpu_of_def)

lemma booked_del:
  assumes "gm_ok m"
  shows "entries_total CPUMillis (gm_del n m) = entries_total CPUMillis m - cpu_of (map_of m n)"
  using assms gm.total_del [of m n _ CPUMillis] gm.total_del_absent [of m n CPUMillis]
  by (cases "map_of m n") (simp_all add: cpu_of_def)

lemma booked_add:
  assumes "pool_ok p"
  shows "booked (addPodToCore i v p) j = booked p j +
    (if has_core p i \<and> j = i then CPUMillis v - cpu_of (registered p i (pi_Name v)) else 0)"
  using pool_ok_pods [OF assms, of i]
  by (auto simp: addPodToCore_def pool_defs booked_put split: option.splits)

lemma booked_remove:
  assumes "pool_ok p"
  shows "booked (removePodFromCore i n p) j = booked p j -
    (if j = i then cpu_of (registered p i n) else 0)"
  using pool_ok_pods [OF assms, of i] booked_del
  by (auto simp: removePodFromCore_def pool_defs cpu_of_def booked_del split: option.splits)

section \<open>The contract of registration\<close>

locale core_ledger =
  fixes add :: "'i \<Rightarrow> 'v \<Rightarrow> 'p \<Rightarrow> 'p"
    and remove :: "'i \<Rightarrow> 'n \<Rightarrow> 'p \<Rightarrow> 'p"
    and reg :: "'p \<Rightarrow> 'i \<Rightarrow> 'n \<Rightarrow> 'v option"
    and use_of :: "'p \<Rightarrow> 'i \<Rightarrow> 'g::ab_group_add"
    and total :: "'p \<Rightarrow> 'i \<Rightarrow> 'g"
    and has :: "'p \<Rightarrow> 'i \<Rightarrow> bool"
    and name :: "'v \<Rightarrow> 'n"
    and weight :: "'v option \<Rightarrow> 'g"
    and ok :: "'p \<Rightarrow> bool"
  assumes reg_add: "reg (add i v p) j n = (if has p i \<and> j = i \<and> n = name v then Some v else reg p j n)"
    and reg_remove: "reg (remove i m p) j n = (if j = i \<and> n = m then None else reg p j n)"
    and use_add: "use_of (add i v p) j = use_of p j + (if has p i \<and> j = i then weight (Some v) else 0)"
    and use_remove: "use_of (remove i m p) j = use_of p j - (if j = i then weight (reg p i m) else 0)"
    and total_add: "ok p \<Longrightarrow> total (add i v p) j =
      total p j + (if has p i \<and> j = i then weight (Some v) - weight (reg p i (name v)) else 0)"
    and total_remove: "ok p \<Longrightarrow> total (remove i m p) j =
      total p j - (if j = i then weight (reg p i m) else 0)"
    and has_add: "has (add i v p) j = has p j"
    and has_remove: "has (remove i m p) j = has p j"
    and ok_add: "ok p \<Longrightarrow> ok (add i v p)"
    and ok_remove: "ok p \<Longrightarrow> ok (remove i m p)"
    and weight_None: "weight None = 0"
begin

abbreviation drift :: "'p \<Rightarrow> 'i \<Rightarrow> 'g" where
  "drift p i \<equiv> use_of p i - total p i"

lemma drift_remove: "ok p \<Longrightarrow> drift (remove i m p) j = drift p j"
  by (simp add: use_remove total_remove)

lemma drift_add: "ok p \<Longrightarrow>
  drift (add i v p) j = drift p j + (if has p i \<and> j = i then weight (reg p i (name v)) else 0)"
  by (simp add: use_add total_add)

lemma drift_add_new: "ok p \<Longrightarrow> reg p i (name v) = None \<Longrightarrow> drift (add i v p) j = drift p j"
  by (simp only: drift_add weight_None) simp

text \<open>Replacing a registration (remove, then add), on one core and on a list of cores.\<close>

abbreviation replace :: "'v \<Rightarrow> 'p \<Rightarrow> 'i \<Rightarrow> 'p" where
  "replace v p i \<equiv> add i v (remove i (name v) p)"

lemma drift_replace:
  assumes "ok p"
  shows "drift (replace v p i) j = drift p j"
proof -
  have "drift (replace v p i) j = drift (remove i (name v) p) j"
    using assms by (intro drift_add_new) (simp_all add: ok_remove reg_remove)
  also have "\<dots> = drift p j" using assms by (rule drift_remove)
  finally show ?thesis .
qed

lemma ok_replace: "ok p \<Longrightarrow> ok (replace v p i)"
  by (intro ok_add ok_remove)

lemma replace_all:
  assumes "ok p"
  shows "ok (foldl (replace v) p is)" and "drift (foldl (replace v) p is) j = drift p j"
    and "has (foldl (replace v) p is) j = has p j"
  using assms
  by (induction "is" arbitrary: p) (simp_all only: foldl.simps ok_replace drift_replace has_add has_remove)

lemma reg_replace_all:
  "reg (foldl (replace v) p is) j n =
   (if j \<in> set is \<and> n = name v then (if has p j then Some v else None) else reg p j n)"
  by (induction "is" arbitrary: p) (auto simp: reg_add reg_remove has_add has_remove)

text \<open>Removing what was just added restores registrations and usage.\<close>

lemma remove_add:
  assumes "reg p i (name v) = None"
  shows "reg (remove i (name v) (add i v p)) j n = reg p j n"
    and "use_of (remove i (name v) (add i v p)) j = use_of p j"
  using assms by (auto simp: reg_remove reg_add use_remove use_add weight_None)

end

interpretation pool: core_ledger addPodToCore removePodFromCore registered usage booked has_core
  pi_Name cpu_of pool_ok
  by unfold_locales
    (simp_all only: registered_add registered_remove usage_add usage_remove booked_add booked_remove
      has_core_add has_core_remove pool_ok_add pool_ok_remove cpu_of_def option.case)

section \<open>Cleanup\<close>

lemma clean_core_ok: "core_ok i c \<Longrightarrow> core_ok i (clean_core n c)"
  by (auto simp: clean_core_def core_ok_del split: option.splits)

lemma clean_pool_simps:
  assumes "pool_ok p"
  shows "registered (clean_pool n p) i m = (if m = n then None else registered p i m)"
    and "usage (clean_pool n p) i = usage p i - cpu_of (registered p i n)"
    and "booked (clean_pool n p) i = booked p i - cpu_of (registered p i n)"
    and "has_core (clean_pool n p) i = has_core p i"
  using pool_ok_pods [OF assms, of i]
  by (auto simp: clean_pool_def clean_core_def pool_defs map_of_map_snd cpu_of_def booked_del
      split: option.splits)

lemma pool_ok_clean: "pool_ok p \<Longrightarrow> pool_ok (clean_pool n p)"
  by (auto simp: pool_ok_iff clean_pool_def map_of_map_snd clean_core_ok keys_map_snd simp del: map_map)

section \<open>The least loaded core\<close>

lemma least_loop_spec:
  obtains w where "w \<le> u" and "\<forall>(i, c) \<in> set cs. w \<le> sint (UsageMillis c)"
    and "least_loop cs m u = m \<and> w = u \<or>
      w < u \<and> (\<exists>c. (least_loop cs m u, c) \<in> set cs \<and> sint (UsageMillis c) = w)"
proof (induction cs arbitrary: m u thesis)
  case Nil
  show ?case by (rule Nil) simp_all
next
  case (Cons x cs)
  obtain i c where x: "x = (i, c)" by (cases x)
  show ?case
  proof (cases "sint (UsageMillis c) < u")
    case True
    obtain w where w: "w \<le> sint (UsageMillis c)" "\<forall>(i, c) \<in> set cs. w \<le> sint (UsageMillis c)"
      "least_loop cs i (sint (UsageMillis c)) = i \<and> w = sint (UsageMillis c) \<or> w < sint (UsageMillis c) \<and>
        (\<exists>d. (least_loop cs i (sint (UsageMillis c)), d) \<in> set cs \<and> sint (UsageMillis d) = w)"
      by (rule Cons.IH)
    show ?thesis
      by (rule Cons.prems [of w]) (use w True x in auto)
  next
    case False
    obtain w where w: "w \<le> u" "\<forall>(i, c) \<in> set cs. w \<le> sint (UsageMillis c)"
      "least_loop cs m u = m \<and> w = u \<or>
        w < u \<and> (\<exists>d. (least_loop cs m u, d) \<in> set cs \<and> sint (UsageMillis d) = w)"
      by (rule Cons.IH)
    show ?thesis
      by (rule Cons.prems [of w]) (use w False x in auto)
  qed
qed

lemma least_loaded:
  assumes ok: "pool_ok p" and ord: "is_order ord" and r: "findLeastLoadedCore ord p = r"
  shows "r = - 1 \<and> (\<forall>i. has_core p i \<longrightarrow> sint (usage p i) = max_int64) \<or>
    has_core p r \<and> (\<forall>i. has_core p i \<longrightarrow> sint (usage p r) \<le> sint (usage p i))"
proof -
  have set_ord: "set (ord (Cores p)) = set (Cores p)"
    using ord by (rule set_order)
  have gm: "gm_ok (Cores p)" using ok by (simp add: pool_ok_def)
  obtain w where w: "w \<le> max_int64" "\<forall>(i, c) \<in> set (Cores p). w \<le> sint (UsageMillis c)"
    "r = - 1 \<and> w = max_int64 \<or>
      w < max_int64 \<and> (\<exists>c. (r, c) \<in> set (Cores p) \<and> sint (UsageMillis c) = w)"
    using least_loop_spec [of max_int64 "ord (Cores p)" "- 1"] r
    unfolding findLeastLoadedCore_def set_ord by metis
  have le: "w \<le> sint (usage p i)" if "has_core p i" for i
    using that w(2) unfolding gm_all_iff [OF gm] by (auto simp: has_core_def usage_def)
  from w(3) show ?thesis
  proof (elim disjE conjE exE)
    assume "r = - 1" "w = max_int64"
    moreover have "sint (usage p i) \<le> max_int64" for i
      using sint64_lt [of "usage p i"] by (simp add: max_int64_def)
    ultimately show ?thesis using le by (auto intro: order_antisym)
  next
    fix c
    assume "(r, c) \<in> set (Cores p)" and c: "sint (UsageMillis c) = w"
    then have "map_of (Cores p) r = Some c" using gm by (simp add: map_of_eq_Some_iff)
    then show ?thesis using le c by (auto simp: has_core_def usage_def)
  qed
qed

section \<open>Properties\<close>

lemma balanced_drift: "balanced p \<longleftrightarrow> (\<forall>i. usage p i - booked p i = 0)"
  by (simp add: balanced_def)

lemma balanced_clean: "pool_ok p \<Longrightarrow> balanced p \<Longrightarrow> balanced (clean_pool n p)"
  by (simp add: balanced_def clean_pool_simps)

lemma new_pool_cores: "map_of (Cores (new_pool n k)) i =
  (if 0 \<le> i \<and> i < k then Some \<lparr>CoreID = i, UsageMillis = 0, Pods = []\<rparr> else None)"
  by (auto simp: new_pool_def map_of_map_restrict restrict_map_def)

lemma balanced_new: "balanced (new_pool n k)"
  by (auto simp: balanced_def pool_defs new_pool_cores entries_total_def split: if_splits)

lemma balanced_remove:
  assumes "pool_ok p" and "balanced p"
  shows "balanced (removePodFromCore i n p)"
  using assms unfolding balanced_drift by (simp only: pool.drift_remove) simp

lemma balanced_replace:
  assumes "pool_ok p" and "balanced p"
  shows "balanced (addPodToCore i v (removePodFromCore i (pi_Name v) p))"
  using assms unfolding balanced_drift by (simp only: pool.drift_replace) simp

lemma balanced_add_new:
  assumes "pool_ok p" and "balanced p" and "registered p i (pi_Name v) = None"
  shows "balanced (addPodToCore i v p)"
  using assms unfolding balanced_drift by (simp only: pool.drift_add_new) simp

text \<open>
  C5: the bookkeeping invariant of the pool. On a well-formed pool whose every core records exactly
  the sum of its pods' millicores, it still does after removing a pod from a core, after replacing a
  pod's registration (remove, then add), after registering a pod that was not on the core, and after
  cleaning a deleted pod from all cores. Sums and usage are 64-bit and may wrap; the equality is
  exact.
\<close>

theorem balanced_preserved:
  assumes "pool_ok p" and "balanced p"
  shows "balanced (removePodFromCore i n p) \<and>
    balanced (addPodToCore i v (removePodFromCore i (pi_Name v) p)) \<and>
    (registered p i (pi_Name v) = None \<longrightarrow> balanced (addPodToCore i v p)) \<and>
    balanced (clean_pool n p)"
  using assms balanced_remove balanced_replace balanced_add_new balanced_clean by blast

definition demo_pod :: "string \<Rightarrow> string \<Rightarrow> int64 \<Rightarrow> int list \<Rightarrow> PodInfo" where
  "demo_pod n crit cpu cs = \<lparr>pi_Name = n, pi_Namespace = ''default'', pi_Criticality = crit,
     CPUMillis = cpu, CoreSet = cs\<rparr>"

theorem balanced_preserved_witness:
  "balanced (removePodFromCore 2 ''low-pod'' (new_pool ''worker'' 8)) \<and>
   balanced (addPodToCore 2 (demo_pod ''low-pod'' ''Low'' 350 [2])
     (removePodFromCore 2 (pi_Name (demo_pod ''low-pod'' ''Low'' 350 [2])) (new_pool ''worker'' 8))) \<and>
   balanced (clean_pool ''low-pod'' (new_pool ''worker'' 8))"
  using balanced_preserved [OF pool_ok_new balanced_new, where i = 2 and n = "''low-pod''"] by blast

end
