(* ===== verification/RT_Load.thy ===== *)
theory RT_Load
  imports RT_Validator CPU_Pool
begin

text \<open>
  How the controller turns RT settings into millicores, and how it compares millicores with its 90
  percent threshold: the float arithmetic of \<open>internal/controller/mckube_controller.go\<close>, with exact
  integer characterisations of both.
\<close>

section \<open>Millicores of a setting\<close>

definition effectiveRuntime :: "string \<Rightarrow> RTSettings \<Rightarrow> int" where
  "effectiveRuntime currentRuntimeState s =
     (if currentRuntimeState = ''hi'' then RuntimeHi s else RuntimeLow s)"

definition rt_cpuMillis :: "int \<Rightarrow> int \<Rightarrow> int64" where
  "rt_cpuMillis runtime period =
     (let cpuMillis = (if 0 < period
            then word_of_int (f64_to_int (f64_mul (f64_div (f64_of_int runtime) (f64_of_int period)) 1000))
            else 0)
      in if cpuMillis = 0 then 100 else cpuMillis)"

section \<open>Thousandths\<close>

text \<open>
  Dividing by 1000 and multiplying by 1000 gives back every integer from 0 to 1000. For most \<open>n\<close>
  the two rounding errors add up to less than half a unit in the last place of \<open>n\<close>. That bound
  fails for powers of two and where \<open>n\<close> is just below one (1000 is just below 1024); these are
  checked number by number: \<open>milli_check j n\<close> carries out both roundings over the integers for an
  \<open>n\<close> of \<open>j + 1\<close> bits.
\<close>

definition milli_check :: "nat \<Rightarrow> int \<Rightarrow> bool" where
  "milli_check j n = (let k = (if 2 ^ 52 * 1000 \<le> n * 2 ^ (61 - j) then 61 - j else 62 - j);
     m = (n * 2 ^ k + 500) div 1000
   in 2 ^ 52 * 1000 \<le> n * 2 ^ k \<and> n * 2 ^ k < 2 ^ 53 * 1000 \<and> 2 * \<bar>n * 2 ^ k - m * 1000\<bar> < 1000 \<and>
      2 ^ 52 * 2 ^ k \<le> m * 1000 * 2 ^ (52 - j) \<and> m * 1000 * 2 ^ (52 - j) < 2 ^ 53 * 2 ^ k \<and>
      2 * \<bar>m * 1000 * 2 ^ (52 - j) - n * 2 ^ (52 - j) * 2 ^ k\<bar> < 2 ^ k)"

lemma milli_check_sound:
  assumes "milli_check j n"
  shows "f64_round (f64_round (of_int n / 1000) * 1000) = of_int n"
proof -
  define k where "k = (if 2 ^ 52 * 1000 \<le> n * 2 ^ (61 - j) then 61 - j else 62 - j)"
  define m where "m = (n * 2 ^ k + 500) div 1000"
  have c: "2 ^ 52 * 1000 \<le> n * 2 ^ k" "n * 2 ^ k < 2 ^ 53 * 1000" "2 * \<bar>n * 2 ^ k - m * 1000\<bar> < 1000"
    "2 ^ 52 * 2 ^ k \<le> m * 1000 * 2 ^ (52 - j)" "m * 1000 * 2 ^ (52 - j) < 2 ^ 53 * 2 ^ k"
    "2 * \<bar>m * 1000 * 2 ^ (52 - j) - n * 2 ^ (52 - j) * 2 ^ k\<bar> < 2 ^ k"
    using assms by (simp_all only: milli_check_def Let_def k_def [symmetric] m_def [symmetric])
  have "f64_round (of_int n / of_int 1000) = of_int m / 2 ^ k"
    using c(1-3) by (intro f64_round_eval) simp_all
  moreover have "f64_round (of_int (m * 1000) / of_int (2 ^ k)) = of_int (n * 2 ^ (52 - j)) / 2 ^ (52 - j)"
    using c(4-6) by (intro f64_round_eval) simp_all
  ultimately show ?thesis by simp
qed

lemma thousandths_between:
  fixes n :: int
  assumes j: "j \<le> 52" and lo: "2 ^ j < n" and hi: "512 * n < 1000 * 2 ^ j"
  shows "f64_round (f64_round (of_int n / 1000) * 1000) = of_int n"
proof -
  define t :: rat where "t = 2 powi (int j - 62)"
  have t: "0 < t" by (simp add: t_def)
  have pj: "(2 :: rat) ^ j = 2 ^ 62 * t"
    by (simp add: t_def power_int_diff)
  have t10: "(2 :: rat) powi (int j - 52) = 2 ^ 10 * t"
    by (simp add: t_def power_int_diff)
  have n: "2 ^ 62 * t + 1 \<le> of_int n" "512 * of_int n < 1000 * (2 ^ 62 * t)"
  proof -
    have "(of_int (2 ^ j + 1) :: rat) \<le> of_int n" "(of_int (512 * n) :: rat) < of_int (1000 * 2 ^ j)"
      using lo hi by (simp_all only: of_int_le_iff of_int_less_iff)
    then show "2 ^ 62 * t + 1 \<le> of_int n" "512 * of_int n < 1000 * (2 ^ 62 * t)"
      by (simp_all only: of_int_add of_int_mult of_int_power of_int_numeral of_int_1 pj)
  qed
  have small: "512 * t \<le> 1"
  proof -
    have "(2 :: rat) powi (int j - 62) \<le> 2 powi (- 10)" using j by (intro powi2_mono) simp
    then show ?thesis by (simp add: t_def)
  qed
  let ?x = "of_int n / 1000 :: rat"
  have "f64_round ?x = of_int (round_even (?x / t)) * t"
    unfolding t_def by (rule f64_round_at) (use n in \<open>simp_all add: t_def [symmetric]\<close>)
  then have "f64_round ?x - ?x = (of_int (round_even (?x / t)) - ?x / t) * t"
    using t by (simp add: field_simps)
  then have "\<bar>f64_round ?x - ?x\<bar> \<le> 1 / 2 * t"
    using mult_right_mono [OF round_even_err [of "?x / t"], of t] t by (simp add: abs_mult)
  then have y: "of_int n - 500 * t \<le> f64_round ?x * 1000" "f64_round ?x * 1000 \<le> of_int n + 500 * t"
    unfolding abs_le_iff by (simp_all add: field_simps)
  let ?y = "f64_round ?x * 1000" and ?m = "n * 2 ^ (52 - j)"
  have nm: "of_int n = of_int ?m * (2 ^ 10 * t)"
  proof -
    have "(2 :: rat) ^ (52 - j) = 2 powi (52 - int j)"
      using j by (simp add: power_int_def nat_diff_distrib)
    then have "(2 :: rat) ^ (52 - j) * 2 powi (int j - 52) = 1" by (simp flip: powi2_add)
    then have one: "(2 :: rat) ^ (52 - j) * (2 ^ 10 * t) = 1" unfolding t10 .
    have "(of_int n :: rat) = of_int n * ((2 :: rat) ^ (52 - j) * (2 ^ 10 * t))"
      unfolding one by (rule mult_1_right [symmetric])
    also have "\<dots> = of_int ?m * (2 ^ 10 * t)"
      by (simp only: of_int_mult of_int_power of_int_numeral mult.assoc)
    finally show ?thesis .
  qed
  have "f64_round ?y = of_int (round_even (?y / (2 ^ 10 * t))) * (2 ^ 10 * t)"
    unfolding t10 [symmetric] by (rule f64_round_at) (use n y small t in \<open>simp_all add: t10\<close>)
  moreover have "round_even (?y / (2 ^ 10 * t)) = ?m"
  proof (rule round_even_near)
    have "?y / (2 ^ 10 * t) - of_int ?m = (?y - of_int n) / (2 ^ 10 * t)"
    proof -
      have "of_int n / (2 ^ 10 * t) = of_int ?m"
        by (rule nonzero_divide_eq_eq [THEN iffD2, OF _ nm]) (use t in simp)
      then show ?thesis unfolding diff_divide_distrib by (simp only:)
    qed
    moreover have "\<bar>?y - of_int n\<bar> < 512 * t" using y t unfolding abs_less_iff by linarith
    ultimately show "\<bar>?y / (2 ^ 10 * t) - of_int ?m\<bar> < 1 / 2"
      using t by (simp add: divide_less_eq)
  qed
  ultimately show ?thesis using nm by (simp only:)
qed

definition milli_ranges :: "(nat \<times> int \<times> int) list" where
  "milli_ranges = [(0, 1, 1), (1, 2, 2), (2, 4, 4), (3, 8, 8), (4, 16, 16), (5, 32, 32), (6, 64, 64),
     (7, 128, 128), (8, 256, 256), (9, 512, 512), (5, 63, 63), (6, 125, 127), (7, 250, 255),
     (8, 500, 511), (9, 1000, 1000)]"

lemma milli_checks: "list_all (\<lambda>(j, a, b). list_all (milli_check j) [a..b]) milli_ranges"
  by code_simp

lemma milli_ranges_cover:
  assumes n: "0 < n" "n \<le> 1000" and rest: "\<And>j. j \<le> 9 \<Longrightarrow> \<not> (2 ^ j < n \<and> 512 * n < 1000 * 2 ^ j)"
  shows "\<exists>(j, a, b) \<in> set milli_ranges. a \<le> n \<and> n \<le> b"
proof -
  consider "n = 1" | "2 \<le> n" "n < 4" | "4 \<le> n" "n < 8" | "8 \<le> n" "n < 16" | "16 \<le> n" "n < 32"
    | "32 \<le> n" "n < 64" | "64 \<le> n" "n < 128" | "128 \<le> n" "n < 256" | "256 \<le> n" "n < 512" | "512 \<le> n"
    using n by linarith
  then show ?thesis
    using n rest [of 1] rest [of 2] rest [of 3] rest [of 4] rest [of 5] rest [of 6] rest [of 7]
      rest [of 8] rest [of 9]
    by cases (auto simp: milli_ranges_def)
qed

lemma thousandths:
  assumes "0 \<le> n" and "n \<le> 1000"
  shows "f64_round (f64_round (of_int n / 1000) * 1000) = of_int n"
proof (cases "n = 0")
  case False
  show ?thesis
  proof (cases "\<exists>j \<in> {0..9}. 2 ^ j < n \<and> 512 * n < 1000 * 2 ^ j")
    case True
    then obtain j :: nat where "j \<le> 9" "2 ^ j < n" "512 * n < 1000 * 2 ^ j" by auto
    then show ?thesis by (intro thousandths_between [of j]) simp_all
  next
    case rest: False
    obtain j a b where "(j, a, b) \<in> set milli_ranges" "a \<le> n" "n \<le> b"
      using milli_ranges_cover [of n] rest assms \<open>n \<noteq> 0\<close> by fastforce
    then have "milli_check j n" using milli_checks by (fastforce simp: list_all_iff)
    then show ?thesis by (rule milli_check_sound)
  qed
qed simp

lemma millis_floor:
  assumes r: "0 \<le> r" "r \<le> p" and p: "0 < p" "p < 2 ^ 40"
  shows "\<lfloor>f64_round (f64_round (of_int r / of_int p) * 1000)\<rfloor> = 1000 * r div p"
proof (cases "p dvd 1000 * r")
  case True
  then obtain n where n: "1000 * r = p * n" by (rule dvdE)
  have "0 \<le> n" "n \<le> 1000"
  proof -
    show "0 \<le> n" using n r p by (metis mult_nonneg_nonneg zero_le_mult_iff zero_le_numeral not_less)
    have "p * n \<le> p * 1000" using n r by simp
    then show "n \<le> 1000" using p by simp
  qed
  moreover have "of_int r / of_int p = (of_int n / 1000 :: rat)"
  proof -
    have "(1000 :: rat) * of_int r = of_int p * of_int n"
      using n by (metis of_int_mult of_int_numeral)
    then show ?thesis using p by (simp add: field_simps)
  qed
  ultimately have "f64_round (f64_round (of_int r / of_int p) * 1000) = of_int n"
    using thousandths [of n] by (simp only:)
  then show ?thesis using n p by simp
next
  case False
  let ?v = "of_int r / of_int p :: rat"
  have v: "0 \<le> ?v" using r p by simp
  have "f64_round ?v * 1000 - of_int (1000 * r) / of_int p = 1000 * (f64_round ?v - ?v)"
    by (simp add: algebra_simps)
  then have "\<bar>f64_round ?v * 1000 - of_int (1000 * r) / of_int p\<bar> = 1000 * \<bar>f64_round ?v - ?v\<bar>"
    by (simp only: abs_mult abs_numeral)
  also have "\<dots> \<le> 1000 * (?v / 2 ^ 53)"
    using f64.err [of ?v] unfolding abs_of_nonneg [OF v] by (rule mult_left_mono) simp
  also have "\<dots> \<le> of_int (1000 * r) / of_int p / 2 ^ 52" using v by simp
  finally show ?thesis
    using r p False by (intro f64.floor_div_not_dvd) simp_all
qed

lemma rt_cpuMillis_eq:
  assumes r: "0 \<le> r" "r \<le> p" and p: "0 < p" "p < 2 ^ 40"
  shows "sint (rt_cpuMillis r p) = (if 1000 * r < p then 100 else 1000 * r div p)"
proof -
  let ?x = "f64_round (f64_round (of_int r / of_int p) * 1000)"
  have q: "0 \<le> 1000 * r div p" "1000 * r div p \<le> 1000"
  proof -
    show "0 \<le> 1000 * r div p" using r p by (simp add: pos_imp_zdiv_nonneg_iff)
    have "1000 * r div p \<le> 1000 * p div p" using r p by (intro zdiv_mono1) simp_all
    then show "1000 * r div p \<le> 1000" using p by simp
  qed
  have "f64_to_int ?x = 1000 * r div p"
    using r p q by (subst f64_to_int_floor) (simp_all add: millis_floor f64.nonneg)
  moreover have "f64_of_int r = of_int r" "f64_of_int p = of_int p"
    using r p by (simp_all add: f64_of_int_exact)
  ultimately have c: "rt_cpuMillis r p =
      (if (word_of_int (1000 * r div p) :: int64) = 0 then 100 else word_of_int (1000 * r div p))"
    using p by (simp add: rt_cpuMillis_def f64_mul_def f64_div_def)
  have s: "sint (word_of_int (1000 * r div p) :: int64) = 1000 * r div p"
    using q by (intro sint64_of_int) simp_all
  have "1000 * r div p = 0 \<longleftrightarrow> 1000 * r < p"
    using r p by (auto simp: zdiv_eq_0_iff)
  moreover have "(word_of_int (1000 * r div p) :: int64) = 0 \<longleftrightarrow> 1000 * r div p = 0"
    using s by (metis sint_0 word_of_int_0)
  ultimately show ?thesis using s by (simp add: c)
qed

section \<open>The threshold\<close>

definition coreUtilizationThreshold :: rat where
  "coreUtilizationThreshold = f64_round (9 / 10)"

definition utilization_after :: "rat \<Rightarrow> int64 \<Rightarrow> rat" where
  "utilization_after currentUsage cpuMillis =
     f64_add currentUsage (f64_div (f64_of_int (sint cpuMillis)) 1000)"

context rounding
begin

lemma thousandth_sum_upper:
  assumes "0 \<le> u" "0 \<le> c" "u + c \<le> 899"
  shows "rnd (rnd (u / 1000) + rnd (c / 1000)) < rnd (9 / 10)"
proof -
  have "rnd (u / 1000) + rnd (c / 1000) \<le> (u + c) / 1000 + (u + c) / 1000 / 2 ^ 53"
    using upper [of "u / 1000"] upper [of "c / 1000"] assms by (simp add: field_simps)
  also have "\<dots> \<le> 8991 / 10000" using assms by simp
  finally have s: "rnd (u / 1000) + rnd (c / 1000) \<le> 8991 / 10000" .
  have "rnd (rnd (u / 1000) + rnd (c / 1000)) \<le> rnd (8991 / 10000)" using s by (rule mono)
  also have "\<dots> \<le> 8991 / 10000 + 8991 / 10000 / 2 ^ 53" by (rule upper) simp
  also have "\<dots> < 9 / 10 - 9 / 10 / 2 ^ 53" by simp
  also have "\<dots> \<le> rnd (9 / 10)" using lower [of "9 / 10"] by simp
  finally show ?thesis .
qed

lemma thousandth_sum_lower:
  assumes "0 \<le> u" "0 \<le> c" "901 \<le> u + c"
  shows "rnd (9 / 10) < rnd (rnd (u / 1000) + rnd (c / 1000))"
proof -
  have "rnd (9 / 10) \<le> 9 / 10 + 9 / 10 / 2 ^ 53" by (rule upper) simp
  also have "\<dots> < 9009 / 10000 - 9009 / 10000 / 2 ^ 53" by simp
  also have "\<dots> \<le> rnd (9009 / 10000)" by (rule lower) simp
  also have "\<dots> \<le> rnd (rnd (u / 1000) + rnd (c / 1000))"
  proof (rule mono)
    have "(9009 :: rat) / 10000 \<le> (u + c) / 1000 - (u + c) / 1000 / 2 ^ 53" using assms by simp
    also have "\<dots> \<le> rnd (u / 1000) + rnd (c / 1000)"
      using lower [of "u / 1000"] lower [of "c / 1000"] assms by (simp add: field_simps)
    finally show "9009 / 10000 \<le> rnd (u / 1000) + rnd (c / 1000)" .
  qed
  finally show ?thesis .
qed

end

lemma getCoreUtilization_usage:
  assumes "\<bar>sint (usage p i)\<bar> \<le> 2 ^ 53"
  shows "getCoreUtilization p i = f64_round (of_int (sint (usage p i)) / 1000)"
  using assms f64_of_int_exact [of "sint (usage p i)"]
  by (auto simp: getCoreUtilization_def usage_def f64_div_def split: option.splits)

lemma threshold_le:
  assumes "0 \<le> sint (usage p i)" "0 \<le> sint c" "sint (usage p i) + sint c \<le> 899"
  shows "utilization_after (getCoreUtilization p i) c < coreUtilizationThreshold"
  using f64.thousandth_sum_upper [of "of_int (sint (usage p i))" "of_int (sint c)"] assms
    of_int_le_iff [of "sint (usage p i) + sint c" 899, where 'a = rat]
  by (simp add: utilization_after_def coreUtilizationThreshold_def getCoreUtilization_usage
      f64_of_int_exact f64_add_def f64_div_def)

lemma threshold_gt:
  assumes "0 \<le> sint (usage p i)" "sint (usage p i) \<le> 2 ^ 53" "0 \<le> sint c" "sint c \<le> 2 ^ 53"
    and "901 \<le> sint (usage p i) + sint c"
  shows "coreUtilizationThreshold < utilization_after (getCoreUtilization p i) c"
  using f64.thousandth_sum_lower [of "of_int (sint (usage p i))" "of_int (sint c)"] assms
    of_int_le_iff [of 901 "sint (usage p i) + sint c", where 'a = rat]
  by (simp add: utilization_after_def coreUtilizationThreshold_def getCoreUtilization_usage
      f64_of_int_exact f64_add_def f64_div_def)


section \<open>The boundary\<close>

text \<open>
  At exactly 900 millicores the outcome depends on how they are split: the sum of the two rounded
  quotients can fall on either side of the rounded 0.9.
\<close>

lemma f64_eval_338: "f64_round (338 / 1000) = 6088866696204911 / 2 ^ 54"
  using f64_round_eval [of 1000 338 54 6088866696204911] by simp

lemma f64_eval_562: "f64_round (562 / 1000) = 5062045981164438 / 2 ^ 53"
  using f64_round_eval [of 1000 562 53 5062045981164438] by simp

lemma f64_eval_90: "coreUtilizationThreshold = 8106479329266893 / 2 ^ 53"
  using f64_round_eval [of 10 9 53 8106479329266893] by (simp add: coreUtilizationThreshold_def)

lemma f64_eval_sum: "f64_round (16212958658533787 / 2 ^ 54) = 8106479329266894 / 2 ^ 53"
proof -
  have e: "(2 :: rat) powi (- 53) = 1 / 2 ^ 53" by (simp add: power_int_def field_simps)
  have "f64_round (16212958658533787 / 2 ^ 54) =
      of_int (round_even (16212958658533787 / 2 ^ 54 / 2 powi (- 53))) * 2 powi (- 53)"
    by (rule f64_round_at) (simp_all only: e, simp_all)
  moreover have "(16212958658533787 / 2 ^ 54 / 2 powi (- 53) :: rat) = 16212958658533787 / 2"
    by (simp add: e)
  moreover have "\<lfloor>16212958658533787 / 2 :: rat\<rfloor> = 8106479329266893"
    by (simp add: floor_eq_iff)
  ultimately show ?thesis by (simp add: round_even_def Let_def e)
qed

lemma f64_eval_half: "f64_round (500 / 1000) = 4503599627370496 / 2 ^ 53"
  using f64_round_eval [of 1000 500 53 4503599627370496] by simp

lemma f64_eval_400: "f64_round (400 / 1000) = 7205759403792794 / 2 ^ 54"
  using f64_round_eval [of 1000 400 54 7205759403792794] by simp

lemma f64_eval_sum_exact: "f64_round (8106479329266893 / 2 ^ 53) = 8106479329266893 / 2 ^ 53"
  using f64_round_eval [of "2 ^ 53" 8106479329266893 53 8106479329266893] by simp

lemma f64_of_sint: "\<bar>sint w\<bar> \<le> 2 ^ 53 \<Longrightarrow> f64_of_int (sint w) = of_int (sint w)"
  by (rule f64_of_int_exact)

lemma after_eq:
  assumes "\<bar>sint (usage p i)\<bar> \<le> 2 ^ 53" "\<bar>sint c\<bar> \<le> 2 ^ 53"
  shows "utilization_after (getCoreUtilization p i) c =
    f64_round (f64_round (of_int (sint (usage p i)) / 1000) + f64_round (of_int (sint c) / 1000))"
  using assms by (simp add: utilization_after_def getCoreUtilization_usage f64_of_sint f64_add_def f64_div_def)

lemma threshold_338_562:
  assumes "usage p i = 338"
  shows "coreUtilizationThreshold < utilization_after (getCoreUtilization p i) 562"
proof -
  have s: "f64_round (338 / 1000) + f64_round (562 / 1000) = 16212958658533787 / 2 ^ 54"
    unfolding f64_eval_338 f64_eval_562 by simp
  have "utilization_after (getCoreUtilization p i) 562 =
      f64_round (f64_round (338 / 1000) + f64_round (562 / 1000))"
    using assms by (subst after_eq) simp_all
  also have "\<dots> = 8106479329266894 / 2 ^ 53" by (simp only: s f64_eval_sum)
  finally show ?thesis by (simp only: f64_eval_90) simp
qed

lemma threshold_500_400:
  assumes "usage p i = 500"
  shows "utilization_after (getCoreUtilization p i) 400 = coreUtilizationThreshold"
proof -
  have s: "f64_round (500 / 1000) + f64_round (400 / 1000) = 8106479329266893 / 2 ^ 53"
    unfolding f64_eval_half f64_eval_400 by simp
  have "utilization_after (getCoreUtilization p i) 400 =
      f64_round (f64_round (500 / 1000) + f64_round (400 / 1000))"
    using assms by (subst after_eq) simp_all
  also have "\<dots> = 8106479329266893 / 2 ^ 53" by (simp only: s f64_eval_sum_exact)
  finally show ?thesis by (simp only: f64_eval_90)
qed

section \<open>Properties\<close>

text \<open>
  C24: the millicores the controller books for a pod are the exact integer part of 1000 runtime /
  period, for every runtime between 0 and the period and every period below 2 to the 40
  microseconds, although the code divides and multiplies in floating point; where that is 0 it books
  the default of 100.
\<close>

theorem rt_cpuMillis_exact:
  assumes "0 \<le> r" "r \<le> p" "0 < p" "p < 2 ^ 40"
  shows "sint (rt_cpuMillis r p) = (if 1000 * r < p then 100 else 1000 * r div p)"
  using assms by (rule rt_cpuMillis_eq)

theorem rt_cpuMillis_exact_witness: "sint (rt_cpuMillis 570 1000) = 570"
  using rt_cpuMillis_exact [of 570 1000] by simp

text \<open>
  C25: settings the webhook has validated book between 1 and 950 millicores on each of their cores,
  in the low state as in the high one; and when the high runtime is above 0.901 of the period,
  the booking alone exceeds the 90 percent threshold of an empty core.
\<close>

theorem validated_load:
  assumes "validateRTSettings s = None" and "Period s < 2 ^ 40"
  shows "1 \<le> sint (rt_cpuMillis (effectiveRuntime st s) (Period s)) \<and>
    sint (rt_cpuMillis (effectiveRuntime st s) (Period s)) \<le> 950 \<and>
    (901 * Period s \<le> 1000 * RuntimeHi s \<longrightarrow>
      coreUtilizationThreshold <
        utilization_after (getCoreUtilization (new_pool n 8) i) (rt_cpuMillis (RuntimeHi s) (Period s)))"
proof -
  have v: "0 < Period s" "0 < RuntimeLow s" "RuntimeLow s \<le> RuntimeHi s" "20 * RuntimeHi s \<le> 19 * Period s"
    using assms by (simp_all add: validate_iff)
  let ?r = "effectiveRuntime st s"
  have r: "0 < ?r" "?r \<le> RuntimeHi s" using v by (simp_all add: effectiveRuntime_def)
  have le: "1000 * ?r div Period s \<le> 950"
  proof -
    have "1000 * ?r div Period s \<le> (950 * Period s) div Period s"
      using v r by (intro zdiv_mono1) simp_all
    then show ?thesis using v by simp
  qed
  have eq: "sint (rt_cpuMillis ?r (Period s)) =
      (if 1000 * ?r < Period s then 100 else 1000 * ?r div Period s)"
    using v r assms by (intro rt_cpuMillis_eq) simp_all
  have ge: "1 \<le> 1000 * ?r div Period s" if "\<not> 1000 * ?r < Period s"
    using zdiv_mono1 [of "Period s" "1000 * ?r" "Period s"] that v by simp
  have big: "coreUtilizationThreshold <
      utilization_after (getCoreUtilization (new_pool n 8) i) (rt_cpuMillis (RuntimeHi s) (Period s))"
    if hi: "901 * Period s \<le> 1000 * RuntimeHi s"
  proof (rule threshold_gt)
    have u: "usage (new_pool n 8) i = 0" by (auto simp: usage_def new_pool_cores)
    have h: "sint (rt_cpuMillis (RuntimeHi s) (Period s)) = 1000 * RuntimeHi s div Period s"
      using v hi assms by (subst rt_cpuMillis_eq) simp_all
    have lo: "901 \<le> 1000 * RuntimeHi s div Period s"
      using zdiv_mono1 [of "901 * Period s" "1000 * RuntimeHi s" "Period s"] hi v by simp
    have up: "1000 * RuntimeHi s div Period s \<le> 950"
      using zdiv_mono1 [of "1000 * RuntimeHi s" "950 * Period s" "Period s"] v by simp
    show "0 \<le> sint (usage (new_pool n 8) i)" "sint (usage (new_pool n 8) i) \<le> 2 ^ 53" by (simp_all add: u)
    show "0 \<le> sint (rt_cpuMillis (RuntimeHi s) (Period s))"
      "sint (rt_cpuMillis (RuntimeHi s) (Period s)) \<le> 2 ^ 53"
      "901 \<le> sint (usage (new_pool n 8) i) + sint (rt_cpuMillis (RuntimeHi s) (Period s))"
      using lo up by (simp_all add: h u)
  qed
  show ?thesis using eq le ge big by simp
qed

theorem validated_load_witness:
  "let s = \<lparr>Period = 1000, RuntimeLow = 500, RuntimeHi = 950, Core = Some ''2''\<rparr> in
   1 \<le> sint (rt_cpuMillis (effectiveRuntime ''hi'' s) (Period s)) \<and>
    sint (rt_cpuMillis (effectiveRuntime ''hi'' s) (Period s)) \<le> 950 \<and>
    (901 * Period s \<le> 1000 * RuntimeHi s \<longrightarrow>
      coreUtilizationThreshold < utilization_after (getCoreUtilization (new_pool ''worker'' 8) 2)
        (rt_cpuMillis (RuntimeHi s) (Period s)))"
  unfolding Let_def by (rule validated_load) (simp_all add: validate_iff)

text \<open>
  C23: the 90 percent test. With usage and request up to 2 to the 53 millicores, the float comparison
  the code makes agrees with the integer one whenever usage plus request is not exactly 900: below
  900 it does not exceed, above it does. At 900 the answer depends on the split: 338 + 562 counts as
  exceeding, 500 + 400 does not.
\<close>

theorem threshold_decision:
  assumes "0 \<le> sint (usage p i)" "sint (usage p i) \<le> 2 ^ 53" "0 \<le> sint c" "sint c \<le> 2 ^ 53"
  shows "(sint (usage p i) + sint c \<noteq> 900 \<longrightarrow>
     (utilization_after (getCoreUtilization p i) c > coreUtilizationThreshold \<longleftrightarrow>
      sint (usage p i) + sint c > 900)) \<and>
    (usage p i = 338 \<and> c = 562 \<longrightarrow>
      utilization_after (getCoreUtilization p i) c > coreUtilizationThreshold) \<and>
    (usage p i = 500 \<and> c = 400 \<longrightarrow>
      \<not> utilization_after (getCoreUtilization p i) c > coreUtilizationThreshold)"
proof (intro conjI impI)
  assume "sint (usage p i) + sint c \<noteq> 900"
  then consider "sint (usage p i) + sint c \<le> 899" | "901 \<le> sint (usage p i) + sint c" by linarith
  then show "utilization_after (getCoreUtilization p i) c > coreUtilizationThreshold \<longleftrightarrow>
      sint (usage p i) + sint c > 900"
    using threshold_le [of p i c] threshold_gt [of p i c] assms by cases auto
qed (use threshold_338_562 threshold_500_400 in auto)

theorem threshold_decision_witness:
  "\<not> utilization_after (getCoreUtilization (new_pool ''worker'' 8) 2) 350 > coreUtilizationThreshold"
proof -
  have "usage (new_pool ''worker'' 8) 2 = 0" by (simp add: usage_def new_pool_cores)
  then show ?thesis using threshold_decision [of "new_pool ''worker'' 8" 2 350] by simp
qed

end
