(* ===== verification/Tiers.thy ===== *)
theory Tiers
  imports McKube_Types
begin

text \<open>
  Criticality tiers, from \<open>internal/ipvs/event_handler.go\<close> and \<open>internal/ipvs/pod_spec_handler.go\<close>:
  the ranks, the pressure state of a node, the functions that collect, order and select tiers, and
  those that select pods of a tier. The controller has the same rank table.
\<close>

section \<open>Data\<close>

record RealTimeWCET =
  wcet_Node :: string
  RTWcet :: int

record RealTimeData =
  rt_Criticality :: string
  RTDeadline :: int
  RTPeriod :: int
  RTWcets :: "RealTimeWCET list"

record PerTierState =
  ElapsedSec :: int
  DegradeCount :: int
  EvictTried :: bool
  MissingTicks :: int
  LastDegradeTime :: int

record NodePressureState =
  AboveSec :: int
  Tiers :: "string list"
  CurrentTierIdx :: int
  CurrentTier :: string
  PerTier :: "(string, PerTierState) gomap"

definition CriticalityRank :: "(string, int) gomap" where
  "CriticalityRank = [(''Low'', 0), (''Middle'', 1), (''High'', 2)]"

text \<open>Indexing the table with a single result, as most of the code does: an unknown name reads 0.\<close>

definition rank_of :: "string \<Rightarrow> int" where
  "rank_of c = (case map_of CriticalityRank c of Some r \<Rightarrow> r | None \<Rightarrow> 0)"

definition new_tier :: PerTierState where
  "new_tier = \<lparr>ElapsedSec = 0, DegradeCount = 0, EvictTried = False, MissingTicks = 0, LastDegradeTime = 0\<rparr>"

definition new_pressure :: NodePressureState where
  "new_pressure = \<lparr>AboveSec = 0, Tiers = [], CurrentTierIdx = 0, CurrentTier = '''', PerTier = []\<rparr>"

type_synonym rt_table = "(string, RealTimeData) gomap"

section \<open>Collecting the tiers\<close>

fun seen_tiers :: "rt_table \<Rightarrow> Pod list \<Rightarrow> (string, bool) gomap \<Rightarrow> (string, bool) gomap" where
  "seen_tiers rtData [] seen = seen"
| "seen_tiers rtData (p # ps) seen =
     (let app = gm_str (pod_Labels p) rt_label in
      if app = '''' then seen_tiers rtData ps seen
      else (case map_of rtData app of
              Some rt \<Rightarrow>
                if map_of CriticalityRank (rt_Criticality rt) \<noteq> None
                then seen_tiers rtData ps (gm_put (rt_Criticality rt) True seen)
                else seen_tiers rtData ps seen
            | None \<Rightarrow> seen_tiers rtData ps seen))"

definition exchange_step :: "('a \<Rightarrow> int) \<Rightarrow> nat \<Rightarrow> nat \<Rightarrow> 'a list \<Rightarrow> 'a list" where
  "exchange_step key i j xs =
     (if key (xs ! j) < key (xs ! i) then xs[i := xs ! j, j := xs ! i] else xs)"

definition exchange_sort :: "('a \<Rightarrow> int) \<Rightarrow> 'a list \<Rightarrow> 'a list" where
  "exchange_sort key xs =
     fold (\<lambda>i xs. fold (exchange_step key i) [i + 1..<length xs] xs) [0..<length xs] xs"

definition CollectSortedTiers ::
    "((string \<times> bool) list \<Rightarrow> (string \<times> bool) list) \<Rightarrow> Pod list \<Rightarrow> rt_table \<Rightarrow> string list" where
  "CollectSortedTiers ord pods rtData =
     exchange_sort rank_of (map fst (ord (seen_tiers rtData pods [])))"

section \<open>Moving between tiers\<close>

fun index_of :: "string \<Rightarrow> string list \<Rightarrow> int option" where
  "index_of t [] = None"
| "index_of t (x # xs) = (if x = t then Some 0 else map_option (\<lambda>i. i + 1) (index_of t xs))"

definition ReindexCurrentTier :: "NodePressureState \<Rightarrow> NodePressureState" where
  "ReindexCurrentTier st =
     (if Tiers st = [] then st\<lparr>CurrentTier := '''', CurrentTierIdx := 0\<rparr>
      else (case index_of (CurrentTier st) (Tiers st) of
              Some i \<Rightarrow> st\<lparr>CurrentTierIdx := i\<rparr>
            | None \<Rightarrow> st\<lparr>CurrentTierIdx := 0, CurrentTier := Tiers st ! 0\<rparr>))"

fun next_loop :: "int \<Rightarrow> string list \<Rightarrow> int \<Rightarrow> string \<Rightarrow> string" where
  "next_loop curRank [] bestRank best = best"
| "next_loop curRank (t # ts) bestRank best =
     (case map_of CriticalityRank t of
        Some r \<Rightarrow> if curRank < r \<and> r < bestRank then next_loop curRank ts r t
                  else next_loop curRank ts bestRank best
      | None \<Rightarrow> next_loop curRank ts bestRank best)"

definition NextHigherTier :: "string \<Rightarrow> string list \<Rightarrow> string option" where
  "NextHigherTier cur tiers =
     (case map_of CriticalityRank cur of
        None \<Rightarrow> None
      | Some curRank \<Rightarrow>
          (let best = next_loop curRank tiers (2 ^ 30) '''' in if best = '''' then None else Some best))"

section \<open>Selecting pods\<close>

fun FilterPodsByCriticality :: "Pod list \<Rightarrow> rt_table \<Rightarrow> string \<Rightarrow> Pod list" where
  "FilterPodsByCriticality [] rtData crit = []"
| "FilterPodsByCriticality (p # ps) rtData crit =
     (let app = gm_str (pod_Labels p) rt_label; rest = FilterPodsByCriticality ps rtData crit in
      if app = '''' then rest
      else (case map_of rtData app of
              Some rt \<Rightarrow> if rt_Criticality rt = crit then p # rest else rest
            | None \<Rightarrow> rest))"

fun pick_loop :: "(string, int64) gomap \<Rightarrow> Pod list \<Rightarrow> Pod option \<Rightarrow> int \<Rightarrow> Pod option" where
  "pick_loop podMilli [] best bestMilli = best"
| "pick_loop podMilli (p # ps) best bestMilli =
     (case map_of podMilli (pod_Name p) of
        Some m \<Rightarrow> if sint m > bestMilli then pick_loop podMilli ps (Some p) (sint m)
                  else pick_loop podMilli ps best bestMilli
      | None \<Rightarrow> pick_loop podMilli ps best bestMilli)"

definition PickHighestCPUFromMilli :: "Pod list \<Rightarrow> (string, int64) gomap \<Rightarrow> Pod option" where
  "PickHighestCPUFromMilli pods podMilli = pick_loop podMilli pods None (- 1)"

definition MinMilli :: int where "MinMilli = 10"

definition HasActionableInTier :: "Pod list \<Rightarrow> rt_table \<Rightarrow> string \<Rightarrow> bool" where
  "HasActionableInTier pods rtData tier =
     (\<exists>p \<in> set (FilterPodsByCriticality pods rtData tier). \<exists>c \<in> set (Containers p).
        case c_Requests c of None \<Rightarrow> False | Some rs \<Rightarrow> MinMilli < sint (requests_cpu rs))"

section \<open>The exchange sort\<close>

lemma exchange_step_length [simp]: "length (exchange_step key i j xs) = length xs"
  by (simp add: exchange_step_def)

lemma exchange_step_mset:
  "i < length xs \<Longrightarrow> j < length xs \<Longrightarrow> mset (exchange_step key i j xs) = mset xs"
  by (auto simp: exchange_step_def intro: mset_swap)

lemma exchange_inner:
  assumes "i < length xs" and "\<forall>j \<in> set js. i < j \<and> j < length xs"
  shows "length (fold (exchange_step key i) js xs) = length xs"
    and "mset (fold (exchange_step key i) js xs) = mset xs"
    and "\<forall>k < i. fold (exchange_step key i) js xs ! k = xs ! k"
  using assms by (induction js arbitrary: xs) (auto simp: exchange_step_mset, auto simp: exchange_step_def)

text \<open>
  After the inner loop has passed the positions \<open>i + 1..<m\<close>, position \<open>i\<close> holds a least key of the
  positions \<open>i..<m\<close>.
\<close>

lemma exchange_inner_least:
  assumes "i < length xs" and "m \<le> length xs" and "i < k" and "k < m"
  shows "key (fold (exchange_step key i) [i + 1..<m] xs ! i) \<le>
    key (fold (exchange_step key i) [i + 1..<m] xs ! k)"
  using assms
proof (induction m arbitrary: k)
  case (Suc m)
  then have im: "i + 1 \<le> m" by simp
  let ?ys = "fold (exchange_step key i) [i + 1..<m] xs"
  have len: "length ?ys = length xs"
    using Suc.prems by (intro exchange_inner(1)) auto
  have IH: "key (?ys ! i) \<le> key (?ys ! l)" if "i < l" "l < m" for l
    using Suc.IH [of l] Suc.prems that by simp
  have "fold (exchange_step key i) [i + 1..<Suc m] xs = exchange_step key i m ?ys"
    using im by (simp add: upt_Suc_append)
  moreover have "key (exchange_step key i m ?ys ! i) \<le> key (exchange_step key i m ?ys ! k)"
    using Suc.prems len IH [of k] im
    by (auto simp: exchange_step_def nth_list_update less_Suc_eq)
  ultimately show ?case by simp
qed simp

definition sorted_to :: "('a \<Rightarrow> int) \<Rightarrow> nat \<Rightarrow> 'a list \<Rightarrow> bool" where
  "sorted_to key n xs \<longleftrightarrow> (\<forall>i < n. \<forall>k < length xs. i < k \<longrightarrow> key (xs ! i) \<le> key (xs ! k))"

lemma exchange_outer:
  assumes "n \<le> length xs"
  shows "let ys = fold (\<lambda>i xs. fold (exchange_step key i) [i + 1..<length xs] xs) [0..<n] xs in
    length ys = length xs \<and> mset ys = mset xs \<and> sorted_to key n ys"
  using assms
proof (induction n)
  case (Suc n)
  define ys where "ys = fold (\<lambda>i xs. fold (exchange_step key i) [i + 1..<length xs] xs) [0..<n] xs"
  have ys: "length ys = length xs" "mset ys = mset xs" "sorted_to key n ys"
    using Suc unfolding ys_def Let_def by simp_all
  define zs where "zs = fold (exchange_step key n) [n + 1..<length ys] ys"
  have n: "n < length ys" using Suc.prems ys by simp
  have zs: "length zs = length ys" "mset zs = mset ys" "\<forall>k < n. zs ! k = ys ! k"
    unfolding zs_def using n by (intro exchange_inner; auto)+
  have least: "key (zs ! n) \<le> key (zs ! k)" if "n < k" "k < length zs" for k
    using exchange_inner_least [of n ys "length ys" k key] n that zs(1) unfolding zs_def by simp
  have "sorted_to key (Suc n) zs"
    unfolding sorted_to_def
  proof (intro allI impI)
    fix i k assume a: "i < Suc n" "k < length zs" "i < k"
    show "key (zs ! i) \<le> key (zs ! k)"
    proof (cases "i = n")
      case True
      then show ?thesis using least a by simp
    next
      case False
      then have i: "i < n" using a by simp
      have "zs ! k \<in> set (drop n ys) \<or> k < n"
      proof (cases "k < n")
        case False
        have "take n zs = take n ys"
          using zs(1,3) n by (intro nth_equalityI) auto
        then have "mset (drop n zs) = mset (drop n ys)"
          using zs(2) by (metis append_take_drop_id mset_append add_left_cancel)
        moreover have "zs ! k \<in> set (drop n zs)"
          using False a by (auto simp: in_set_conv_nth intro!: exI [of _ "k - n"])
        ultimately show ?thesis by (metis mset_eq_setD)
      qed simp
      then show ?thesis
      proof
        assume "zs ! k \<in> set (drop n ys)"
        then obtain l where "l < length ys - n" "zs ! k = ys ! (n + l)"
          by (auto simp: in_set_conv_nth)
        then show ?thesis using ys(3) i zs(3) by (simp add: sorted_to_def)
      next
        assume "k < n"
        then show ?thesis using ys(3) i a zs by (simp add: sorted_to_def)
      qed
    qed
  qed
  moreover have "fold (\<lambda>i xs. fold (exchange_step key i) [i + 1..<length xs] xs) [0..<Suc n] xs = zs"
    by (simp add: ys_def zs_def)
  ultimately show ?case using ys zs by (simp only: Let_def)
qed (simp add: sorted_to_def)

lemma exchange_sort_sorts:
  shows "mset (exchange_sort key xs) = mset xs" and "sorted (map key (exchange_sort key xs))"
  using exchange_outer [of "length xs" xs key]
  by (simp_all add: exchange_sort_def Let_def sorted_to_def sorted_iff_nth_mono_less)

section \<open>What the selections compute\<close>

text \<open>The tier of a pod, as the table of real-time resources gives it.\<close>

definition tier_of :: "rt_table \<Rightarrow> Pod \<Rightarrow> string option" where
  "tier_of rtData p = (let app = gm_str (pod_Labels p) rt_label in
     if app = '''' then None else map_option rt_Criticality (map_of rtData app))"

lemma filter_tier: "FilterPodsByCriticality ps rtData crit = [p \<leftarrow> ps. tier_of rtData p = Some crit]"
  by (induction ps) (auto simp: tier_of_def Let_def split: option.splits)

definition known_tier :: "string \<Rightarrow> bool" where
  "known_tier c \<longleftrightarrow> map_of CriticalityRank c \<noteq> None"

lemma known_tier_iff: "known_tier c \<longleftrightarrow> c = ''Low'' \<or> c = ''Middle'' \<or> c = ''High''"
  by (simp add: known_tier_def CriticalityRank_def)

lemma rank_of_simps [simp]:
  "rank_of ''Low'' = 0" "rank_of ''Middle'' = 1" "rank_of ''High'' = 2"
  by (simp_all add: rank_of_def CriticalityRank_def)

lemma rank_bounds: "0 \<le> rank_of c \<and> rank_of c \<le> 2"
  by (simp add: rank_of_def CriticalityRank_def)

lemma rank_less_3 [simp]: "rank_of c < 3"
  using rank_bounds [of c] by simp

lemma rank_inj: "inj_on rank_of (Collect known_tier)"
  by (auto simp: inj_on_def known_tier_iff)

lemma known_rank: "known_tier c \<Longrightarrow> map_of CriticalityRank c = Some (rank_of c)"
  by (auto simp: known_tier_def rank_of_def)

lemma unknown_rank: "\<not> known_tier c \<Longrightarrow> map_of CriticalityRank c = None"
  by (simp add: known_tier_def)

lemma seen_keys:
  "set (map fst (seen_tiers rtData ps seen)) =
   set (map fst seen) \<union> {c. known_tier c \<and> (\<exists>p \<in> set ps. tier_of rtData p = Some c)}"
proof (induction ps arbitrary: seen)
  case (Cons p ps)
  show ?case
    using Cons.IH
    by (auto simp: tier_of_def known_tier_def Let_def dom_update image_iff split: option.splits)
qed simp

lemma seen_distinct: "gm_ok seen \<Longrightarrow> gm_ok (seen_tiers rtData ps seen)"
  by (induction ps arbitrary: seen) (simp_all add: Let_def split: option.splits)

text \<open>The order of the tiers is the order of the ranks, whatever order the set is ranged in.\<close>

definition all_tiers :: "string list" where
  "all_tiers = [''Low'', ''Middle'', ''High'']"

lemma sorted_by_rank_unique:
  assumes "set xs = set ys" and "\<forall>c \<in> set xs. known_tier c"
    and "distinct xs" "distinct ys" "sorted (map rank_of xs)" "sorted (map rank_of ys)"
  shows "xs = ys"
proof -
  have inj: "inj_on rank_of (set xs \<union> set ys)"
    using assms(1,2) by (intro inj_on_subset [OF rank_inj]) auto
  then have "distinct (map rank_of xs)" "distinct (map rank_of ys)"
    using assms(3,4) by (auto simp: distinct_map intro: inj_on_subset)
  moreover have "set (map rank_of xs) = set (map rank_of ys)" using assms(1) by simp
  ultimately have "map rank_of xs = map rank_of ys"
    using assms(5,6) by (intro sorted_distinct_set_unique)
  then show ?thesis using inj by (rule map_inj_on)
qed

lemma all_tiers_set: "set all_tiers = Collect known_tier"
  by (auto simp: all_tiers_def known_tier_iff)

lemma CollectSortedTiers_eq:
  assumes "is_order ord"
  shows "CollectSortedTiers ord pods rtData =
    [c \<leftarrow> all_tiers. \<exists>p \<in> set pods. tier_of rtData p = Some c]"
proof (rule sorted_by_rank_unique)
  let ?seen = "seen_tiers rtData pods []"
  have m: "mset (CollectSortedTiers ord pods rtData) = mset (map fst ?seen)"
    using assms unfolding CollectSortedTiers_def exchange_sort_sorts(1) is_order_def
    by (simp only: mset_map)
  have s: "set (CollectSortedTiers ord pods rtData) =
      {c. known_tier c \<and> (\<exists>p \<in> set pods. tier_of rtData p = Some c)}"
    using mset_eq_setD [OF m] unfolding seen_keys by (simp only: list.map list.set Un_empty_left)
  then show "set (CollectSortedTiers ord pods rtData) =
      set [c \<leftarrow> all_tiers. \<exists>p \<in> set pods. tier_of rtData p = Some c]"
    unfolding set_filter all_tiers_set by blast
  show "\<forall>c \<in> set (CollectSortedTiers ord pods rtData). known_tier c" unfolding s by blast
  show "distinct (CollectSortedTiers ord pods rtData)"
    unfolding mset_eq_imp_distinct_iff [OF m] by (rule seen_distinct) simp
  show "sorted (map rank_of (CollectSortedTiers ord pods rtData))"
    unfolding CollectSortedTiers_def by (rule exchange_sort_sorts(2))
  show "distinct [c \<leftarrow> all_tiers. \<exists>p \<in> set pods. tier_of rtData p = Some c]"
    by (rule distinct_filter) (simp add: all_tiers_def)
  show "sorted (map rank_of [c \<leftarrow> all_tiers. \<exists>p \<in> set pods. tier_of rtData p = Some c])"
    by (rule sorted_filter) (simp add: all_tiers_def)
qed

text \<open>A list of tiers in rank order, which is what a node's pressure state holds.\<close>

definition tiers_ok :: "string list \<Rightarrow> bool" where
  "tiers_ok ts \<longleftrightarrow> (\<forall>c \<in> set ts. known_tier c) \<and> distinct ts \<and> sorted (map rank_of ts)"

lemma tiers_ok_collect: "is_order ord \<Longrightarrow> tiers_ok (CollectSortedTiers ord pods rtData)"
  by (simp add: CollectSortedTiers_eq tiers_ok_def all_tiers_def known_tier_iff)

lemma index_of_Some: "index_of t xs = Some i \<Longrightarrow> 0 \<le> i \<and> i < int (length xs) \<and> xs ! nat i = t"
  by (induction xs arbitrary: i) (fastforce split: if_splits simp: nat_add_distrib)+

lemma index_of_None: "index_of t xs = None \<longleftrightarrow> t \<notin> set xs"
  by (induction xs) auto

text \<open>The index of the current tier is in step with its name.\<close>

definition in_step :: "NodePressureState \<Rightarrow> bool" where
  "in_step st \<longleftrightarrow> (if Tiers st = [] then CurrentTier st = '''' \<and> CurrentTierIdx st = 0
     else 0 \<le> CurrentTierIdx st \<and> CurrentTierIdx st < int (length (Tiers st)) \<and>
       Tiers st ! nat (CurrentTierIdx st) = CurrentTier st)"

lemma in_step_reindex: "in_step (ReindexCurrentTier st)"
  using index_of_Some [of "CurrentTier st" "Tiers st"]
  by (auto simp: in_step_def ReindexCurrentTier_def split: option.splits)

lemma next_loop_spec:
  assumes "best \<noteq> '''' \<longrightarrow> known_tier best \<and> cur < rank_of best \<and> rank_of best = b"
    and "best = '''' \<longrightarrow> 2 < b"
  shows "let r = next_loop cur ts b best in
    (r = '''' \<longleftrightarrow> best = '''' \<and> (\<forall>t \<in> set ts. known_tier t \<longrightarrow> rank_of t \<le> cur)) \<and>
    (r \<noteq> '''' \<longrightarrow> known_tier r \<and> cur < rank_of r \<and> (r = best \<or> r \<in> set ts) \<and> rank_of r \<le> b \<and>
      (\<forall>t \<in> set ts. known_tier t \<and> cur < rank_of t \<longrightarrow> rank_of r \<le> rank_of t))"
  using assms
proof (induction ts arbitrary: b best)
  case (Cons t ts)
  show ?case
  proof (cases "known_tier t \<and> cur < rank_of t \<and> rank_of t < b")
    case True
    then have "next_loop cur (t # ts) b best = next_loop cur ts (rank_of t) t"
      by (simp add: known_rank)
    moreover have "t \<noteq> ''''" using True by (auto simp: known_tier_iff)
    ultimately show ?thesis using Cons.IH [of t "rank_of t"] Cons.prems True by (auto simp: Let_def)
  next
    case False
    then have "next_loop cur (t # ts) b best = next_loop cur ts b best"
      by (cases "known_tier t") (auto simp: known_rank unknown_rank)
    then show ?thesis
      using Cons.IH [of best b] Cons.prems False rank_bounds [of t]
      by (auto simp: Let_def)
  qed
qed auto

lemma NextHigherTier_known: "known_tier cur \<Longrightarrow> NextHigherTier cur ts =
  (let best = next_loop (rank_of cur) ts (2 ^ 30) '''' in if best = '''' then None else Some best)"
  by (simp add: NextHigherTier_def known_rank)

lemma NextHigherTier_known_cur: "NextHigherTier cur ts = Some nt \<Longrightarrow> known_tier cur"
  by (auto simp: NextHigherTier_def known_tier_def split: option.splits)

lemma NextHigherTier_Some:
  assumes "NextHigherTier cur ts = Some nt"
  shows "nt \<in> set ts" and "known_tier cur" and "known_tier nt" and "rank_of cur < rank_of nt"
    and "\<forall>t \<in> set ts. known_tier t \<and> rank_of cur < rank_of t \<longrightarrow> rank_of nt \<le> rank_of t"
proof -
  show cur: "known_tier cur" using assms(1) by (rule NextHigherTier_known_cur)
  have "next_loop (rank_of cur) ts (2 ^ 30) '''' = nt \<and> nt \<noteq> ''''"
    using assms(1) unfolding NextHigherTier_known [OF cur] Let_def by (simp split: if_splits)
  then show "nt \<in> set ts" "known_tier nt" "rank_of cur < rank_of nt"
    "\<forall>t \<in> set ts. known_tier t \<and> rank_of cur < rank_of t \<longrightarrow> rank_of nt \<le> rank_of t"
    using next_loop_spec [of "''''" "rank_of cur" "2 ^ 30" ts] by (simp_all add: Let_def)
qed

lemma NextHigherTier_None:
  assumes "known_tier cur"
  shows "NextHigherTier cur ts = None \<longleftrightarrow> (\<forall>t \<in> set ts. known_tier t \<longrightarrow> rank_of t \<le> rank_of cur)"
  using next_loop_spec [of "''''" "rank_of cur" "2 ^ 30" ts]
  unfolding NextHigherTier_known [OF assms(1)] by (simp add: Let_def)

lemma pick_loop_spec:
  obtains w where "b \<le> w"
    and "\<forall>p \<in> set ps. \<forall>m. map_of pm (pod_Name p) = Some m \<longrightarrow> sint m \<le> w"
    and "pick_loop pm ps best b = best \<and> w = b \<or>
      (\<exists>p \<in> set ps. \<exists>m. pick_loop pm ps best b = Some p \<and> map_of pm (pod_Name p) = Some m \<and> sint m = w \<and> b < w)"
proof (induction ps arbitrary: best b thesis)
  case Nil
  show ?case by (rule Nil) simp_all
next
  case (Cons p ps)
  show ?case
  proof (cases "\<exists>m. map_of pm (pod_Name p) = Some m \<and> b < sint m")
    case True
    then obtain m where m: "map_of pm (pod_Name p) = Some m" "b < sint m" by blast
    obtain w where "sint m \<le> w" "\<forall>p \<in> set ps. \<forall>m. map_of pm (pod_Name p) = Some m \<longrightarrow> sint m \<le> w"
      "pick_loop pm ps (Some p) (sint m) = Some p \<and> w = sint m \<or>
        (\<exists>q \<in> set ps. \<exists>n. pick_loop pm ps (Some p) (sint m) = Some q \<and> map_of pm (pod_Name q) = Some n \<and>
          sint n = w \<and> sint m < w)"
      by (rule Cons.IH)
    then show ?thesis using m by (intro Cons.prems [of w]) auto
  next
    case False
    obtain w where "b \<le> w" "\<forall>p \<in> set ps. \<forall>m. map_of pm (pod_Name p) = Some m \<longrightarrow> sint m \<le> w"
      "pick_loop pm ps best b = best \<and> w = b \<or>
        (\<exists>q \<in> set ps. \<exists>n. pick_loop pm ps best b = Some q \<and> map_of pm (pod_Name q) = Some n \<and>
          sint n = w \<and> b < w)"
      by (rule Cons.IH)
    then show ?thesis using False
      by (intro Cons.prems [of w]) (auto split: option.splits)
  qed
qed

lemma pick_Some:
  assumes "PickHighestCPUFromMilli ps pm = Some p"
  shows "p \<in> set ps" and "\<exists>m. map_of pm (pod_Name p) = Some m \<and> 0 \<le> sint m \<and>
    (\<forall>q \<in> set ps. \<forall>n. map_of pm (pod_Name q) = Some n \<longrightarrow> sint n \<le> sint m)"
proof -
  obtain w where w: "\<forall>p \<in> set ps. \<forall>m. map_of pm (pod_Name p) = Some m \<longrightarrow> sint m \<le> w"
    "\<exists>q \<in> set ps. \<exists>m. p = q \<and> map_of pm (pod_Name q) = Some m \<and> sint m = w \<and> - 1 < w"
    by (rule pick_loop_spec [of "- 1" ps pm None]) (use assms in \<open>auto simp: PickHighestCPUFromMilli_def\<close>)
  then show "p \<in> set ps" by blast
  from w show "\<exists>m. map_of pm (pod_Name p) = Some m \<and> 0 \<le> sint m \<and>
    (\<forall>q \<in> set ps. \<forall>n. map_of pm (pod_Name q) = Some n \<longrightarrow> sint n \<le> sint m)" by force
qed

lemma pick_None:
  assumes "PickHighestCPUFromMilli ps pm = None" and "q \<in> set ps" and "map_of pm (pod_Name q) = Some n"
  shows "sint n < 0"
proof -
  obtain w where w: "\<forall>p \<in> set ps. \<forall>m. map_of pm (pod_Name p) = Some m \<longrightarrow> sint m \<le> w" "w = - 1"
    by (rule pick_loop_spec [of "- 1" ps pm None]) (use assms in \<open>auto simp: PickHighestCPUFromMilli_def\<close>)
  then show ?thesis using assms by fastforce
qed

section \<open>Re-synchronising the current tier\<close>

text \<open>
  After re-synchronising, the index of the current tier points at its name in the list (or both
  are empty); a current tier that is still listed stays current, and otherwise the first (lowest) tier
  of the list becomes current.
\<close>

lemma ReindexCurrentTier_in_step:
  "in_step (ReindexCurrentTier st) \<and>
   CurrentTier (ReindexCurrentTier st) =
     (if CurrentTier st \<in> set (Tiers st) then CurrentTier st
      else case Tiers st of [] \<Rightarrow> '''' | t # ts \<Rightarrow> t)"
  using in_step_reindex [of st] index_of_None [of "CurrentTier st" "Tiers st"]
  by (auto simp: ReindexCurrentTier_def split: option.split list.split)

text \<open>Real-time data of a given criticality, for concrete runs.\<close>

definition demo_rt :: "string \<Rightarrow> RealTimeData" where
  "demo_rt crit = \<lparr>rt_Criticality = crit, RTDeadline = 100, RTPeriod = 100, RTWcets = []\<rparr>"

end
