(* ===== verification/Criticality_Order.thy ===== *)
theory Criticality_Order
  imports Tiers
begin

text \<open>
  The order the rank table of \<open>internal/ipvs/event_handler.go\<close> puts on criticalities, as a type of the
  class of linear orders. With it, collecting and moving between tiers are the library's
  \<open>sorted_list_of_set\<close> and \<open>Min\<close>.
\<close>

section \<open>Criticalities\<close>

datatype criticality = Low | Middle | High

primrec crit_name :: "criticality \<Rightarrow> string" where
  "crit_name Low = ''Low''"
| "crit_name Middle = ''Middle''"
| "crit_name High = ''High''"

instantiation criticality :: linorder
begin

definition less_eq_criticality :: "criticality \<Rightarrow> criticality \<Rightarrow> bool" where
  "less_eq_criticality c d \<longleftrightarrow> rank_of (crit_name c) \<le> rank_of (crit_name d)"

definition less_criticality :: "criticality \<Rightarrow> criticality \<Rightarrow> bool" where
  "less_criticality c d \<longleftrightarrow> rank_of (crit_name c) < rank_of (crit_name d)"

instance
proof
  fix c d :: criticality
  show "c \<le> d \<Longrightarrow> d \<le> c \<Longrightarrow> c = d"
    by (cases c; cases d) (simp_all add: less_eq_criticality_def)
qed (auto simp: less_eq_criticality_def less_criticality_def)

end

instance criticality :: finite
proof
  have "(UNIV :: criticality set) = {Low, Middle, High}"
    using criticality.exhaust by auto
  then show "finite (UNIV :: criticality set)" by (metis finite.simps)
qed

lemma crit_name_eq [simp]: "crit_name c = crit_name d \<longleftrightarrow> c = d"
  by (cases c; cases d) simp_all

lemma known_crit: "known_tier n \<longleftrightarrow> (\<exists>c. n = crit_name c)"
proof
  assume "known_tier n"
  then show "\<exists>c. n = crit_name c"
    unfolding known_tier_iff by (metis crit_name.simps)
next
  assume "\<exists>c. n = crit_name c"
  then show "known_tier n"
    unfolding known_tier_iff by (metis criticality.exhaust crit_name.simps)
qed

lemma crit_order [simp]: "Low < Middle" "Middle < High" "Low < High"
  by (simp_all add: less_criticality_def)

section \<open>Properties\<close>

text \<open>
  C36: the tiers of a node are the criticalities that some pod of the node has, in ascending order and
  without duplicates, whatever order Go ranges over the set of seen names: collecting and sorting by
  exchanges is the library's \<open>sorted_list_of_set\<close>.
\<close>

theorem CollectSortedTiers_canonical:
  assumes "is_order ord"
  shows "CollectSortedTiers ord pods rtData =
    map crit_name (sorted_list_of_set {c. \<exists>p \<in> set pods. tier_of rtData p = Some (crit_name c)})"
proof -
  let ?P = "\<lambda>c. \<exists>p \<in> set pods. tier_of rtData p = Some (crit_name c)"
  let ?xs = "filter ?P [Low, Middle, High]"
  have "sorted [Low, Middle, High]"
    by (simp add: less_eq_criticality_def)
  then have "sorted ?xs" by (rule sorted_wrt_filter)
  moreover have "distinct ?xs" by (rule distinct_filter) simp
  moreover have "set ?xs = {c. ?P c}"
  proof -
    have "c \<in> set [Low, Middle, High]" for c by (cases c) simp_all
    then show ?thesis by (simp only: set_filter) blast
  qed
  ultimately have "sorted_list_of_set {c. ?P c} = ?xs"
    using sorted_list_of_set.idem_if_sorted_distinct [of ?xs] by simp
  then show ?thesis
    unfolding CollectSortedTiers_eq [OF assms] all_tiers_def by simp
qed

theorem CollectSortedTiers_canonical_witness:
  "CollectSortedTiers rev [demo_rt_pod] [(''app'', demo_rt ''High'')] =
    map crit_name (sorted_list_of_set {c. \<exists>p \<in> set [demo_rt_pod].
      tier_of [(''app'', demo_rt ''High'')] p = Some (crit_name c)})"
  by (rule CollectSortedTiers_canonical) (simp add: is_order_def)

text \<open>
  C37: escalation goes to the least tier above the current one: \<open>NextHigherTier\<close> is the minimum of the
  listed criticalities above the current one, and none when there is none or when the current tier
  has no rank.
\<close>

theorem NextHigherTier_least:
  "NextHigherTier cur ts = (if \<not> known_tier cur then None else
     (let above = {d. crit_name d \<in> set ts \<and> rank_of cur < rank_of (crit_name d)} in
      if above = {} then None else Some (crit_name (Min above))))"
proof -
  let ?A = "{d. crit_name d \<in> set ts \<and> rank_of cur < rank_of (crit_name d)}"
  have known: "known_tier (crit_name d)" for d using known_crit by blast
  show ?thesis
  proof (cases "NextHigherTier cur ts")
    case None
    have "?A = {}" if "known_tier cur"
    proof -
      have "\<forall>t \<in> set ts. known_tier t \<longrightarrow> rank_of t \<le> rank_of cur"
        using NextHigherTier_None [OF that, of ts] None by simp
      then have "\<not> rank_of cur < rank_of (crit_name d)" if "crit_name d \<in> set ts" for d
        using that known by (simp add: not_less)
      then show ?thesis by blast
    qed
    then show ?thesis unfolding None Let_def by presburger
  next
    case (Some nt)
    obtain d where d: "nt = crit_name d" using NextHigherTier_Some(3) [OF Some] known_crit by blast
    have "d \<in> ?A" using NextHigherTier_Some(1,4) [OF Some] by (simp add: d)
    moreover have "d \<le> e" if "e \<in> ?A" for e
      using NextHigherTier_Some(5) [OF Some] that known by (simp add: d less_eq_criticality_def)
    ultimately have "Min ?A = d" "?A \<noteq> {}" by (auto intro: Min_eqI)
    then show ?thesis
      unfolding Some Let_def d using NextHigherTier_known_cur [OF Some] by presburger
  qed
qed

end
