(* ===== verification/Cluster.thy ===== *)
theory Cluster
  imports Tiers CPU_Pool Go_Text
begin

text \<open>
  What the handlers run in: the process-wide variables of the controller (\<open>podRuntimeState\<close>,
  \<open>cpuPools\<close>, \<open>lastCpuBusyState\<close>, \<open>Timers\<close> of \<open>mckube_controller.go\<close>; \<open>PressureState\<close>,
  \<open>ProcessingNodes\<close> of \<open>event_handler.go\<close>) and the calls they make to the Kubernetes API and to the
  daemons on the nodes. The code behind those calls is not part of the repository: an environment
  answers each call from the history of all calls made so far, so its state, its failures and what
  other processes do in between are arbitrary. The history itself is part of the state, which lets
  properties speak of the requests a handler sends. A handler runs to its end before the next one
  starts.
\<close>

section \<open>Calls and answers\<close>

datatype json =
    JNull
  | JBool bool
  | JInt int
  | JFloat rat
  | JStr string
  | JArr "json list"
  | JObj "(string \<times> json) list"

datatype call =
    GetMcKube string string
  | GetPod string string
  | GetNode string
  | UpdateMcKube McKube
  | StatusUpdate McKube
  | ListMcKubes string
  | ListPods "string option"
  | ListRealtime string
  | UpdatePod Pod
  | EvictionCreate string string
  | ResizePatch string string json
  | PatchPod string string "(string, string) gomap"
  | UpdateNode KNode
  | Post string json
  | RangeMap

text \<open>
  Besides the answers to calls, the environment holds the pure functions of libraries outside the
  repository: the accessors of the \<open>unstructured\<close> package (value, found, error), the formatting of
  values that are not strings, and the text of an error.
\<close>

record env =
  on_get_mckube :: "call list \<Rightarrow> string \<Rightarrow> string \<Rightarrow> go_error + McKube"
  on_get_pod :: "call list \<Rightarrow> string \<Rightarrow> string \<Rightarrow> go_error + Pod"
  on_get_node :: "call list \<Rightarrow> string \<Rightarrow> go_error + KNode"
  on_update_mckube :: "call list \<Rightarrow> McKube \<Rightarrow> go_error + McKube"
  on_status_update :: "call list \<Rightarrow> McKube \<Rightarrow> go_error + McKube"
  on_list_mckubes :: "call list \<Rightarrow> string \<Rightarrow> go_error + McKube list"
  on_list_pods :: "call list \<Rightarrow> string option \<Rightarrow> go_error + Pod list"
  on_list_realtime :: "call list \<Rightarrow> string \<Rightarrow> go_error + json list"
  on_update_pod :: "call list \<Rightarrow> Pod \<Rightarrow> go_error + Pod"
  on_evict :: "call list \<Rightarrow> string \<Rightarrow> string \<Rightarrow> go_error option"
  on_resize :: "call list \<Rightarrow> Pod \<Rightarrow> json \<Rightarrow> go_error + Pod"
  on_patch_pod :: "call list \<Rightarrow> Pod \<Rightarrow> (string, string) gomap \<Rightarrow> go_error + Pod"
  on_update_node :: "call list \<Rightarrow> KNode \<Rightarrow> go_error option"
  on_post :: "call list \<Rightarrow> string \<Rightarrow> json \<Rightarrow> go_error + int"
  on_now :: "call list \<Rightarrow> int"
  on_range_pods :: "call list \<Rightarrow> (string \<times> PodInfo) order"
  on_range_cores :: "call list \<Rightarrow> (int \<times> CPUCoreInfo) order"
  on_range_tiers :: "call list \<Rightarrow> (string \<times> bool) order"
  on_range_timers :: "call list \<Rightarrow> (string \<times> int) order"
  NestedString :: "json \<Rightarrow> string list \<Rightarrow> string \<times> bool \<times> go_error option"
  NestedInt64 :: "json \<Rightarrow> string list \<Rightarrow> int \<times> bool \<times> go_error option"
  NestedSlice :: "json \<Rightarrow> string list \<Rightarrow> json list \<times> bool \<times> go_error option"
  format_v :: "json \<Rightarrow> string"
  error_text :: "go_error \<Rightarrow> string"

record sys =
  podRuntimeState :: "(string, string) gomap"
  cpuPools :: "(string, CPUPool) gomap"
  lastCpuBusyState :: "(string, bool) gomap"
  PressureState :: "(string, NodePressureState) gomap"
  ProcessingNodes :: "(string, bool) gomap"
  Timers :: "(string, int) gomap"
  calls :: "call list"

type_synonym 'a act = "(sys, 'a) state"

section \<open>Making a call\<close>

text \<open>The answer to a call is computed from the history before it; then the call joins the history.\<close>

definition perform :: "call \<Rightarrow> (call list \<Rightarrow> 'a) \<Rightarrow> 'a act" where
  "perform c answer = State (\<lambda>s. (answer (calls s), s\<lparr>calls := calls s @ [c]\<rparr>))"

lemma run_perform [run_simps, simp]:
  "run_state (perform c answer) s = (answer (calls s), s\<lparr>calls := calls s @ [c]\<rparr>)"
  by (simp add: perform_def)

definition get_mckube :: "env \<Rightarrow> string \<Rightarrow> string \<Rightarrow> (go_error + McKube) act" where
  "get_mckube E ns n = perform (GetMcKube ns n) (\<lambda>h. on_get_mckube E h ns n)"

definition get_pod :: "env \<Rightarrow> string \<Rightarrow> string \<Rightarrow> (go_error + Pod) act" where
  "get_pod E ns n = perform (GetPod ns n) (\<lambda>h. on_get_pod E h ns n)"

definition get_node :: "env \<Rightarrow> string \<Rightarrow> (go_error + KNode) act" where
  "get_node E n = perform (GetNode n) (\<lambda>h. on_get_node E h n)"

definition update_mckube :: "env \<Rightarrow> McKube \<Rightarrow> (go_error + McKube) act" where
  "update_mckube E m = perform (UpdateMcKube m) (\<lambda>h. on_update_mckube E h m)"

definition status_update :: "env \<Rightarrow> McKube \<Rightarrow> (go_error + McKube) act" where
  "status_update E m = perform (StatusUpdate m) (\<lambda>h. on_status_update E h m)"

definition list_mckubes :: "env \<Rightarrow> string \<Rightarrow> (go_error + McKube list) act" where
  "list_mckubes E ns = perform (ListMcKubes ns) (\<lambda>h. on_list_mckubes E h ns)"

definition list_pods :: "env \<Rightarrow> string option \<Rightarrow> (go_error + Pod list) act" where
  "list_pods E ns = perform (ListPods ns) (\<lambda>h. on_list_pods E h ns)"

definition list_realtime :: "env \<Rightarrow> string \<Rightarrow> (go_error + json list) act" where
  "list_realtime E ns = perform (ListRealtime ns) (\<lambda>h. on_list_realtime E h ns)"

definition update_pod :: "env \<Rightarrow> Pod \<Rightarrow> (go_error + Pod) act" where
  "update_pod E p = perform (UpdatePod p) (\<lambda>h. on_update_pod E h p)"

definition evict_create :: "env \<Rightarrow> Pod \<Rightarrow> go_error option act" where
  "evict_create E p = perform (EvictionCreate (pod_Namespace p) (pod_Name p))
     (\<lambda>h. on_evict E h (pod_Namespace p) (pod_Name p))"

definition resize_patch :: "env \<Rightarrow> Pod \<Rightarrow> json \<Rightarrow> (go_error + Pod) act" where
  "resize_patch E p body = perform (ResizePatch (pod_Namespace p) (pod_Name p) body)
     (\<lambda>h. on_resize E h p body)"

definition patch_pod :: "env \<Rightarrow> Pod \<Rightarrow> (string, string) gomap \<Rightarrow> (go_error + Pod) act" where
  "patch_pod E p d = perform (PatchPod (pod_Namespace p) (pod_Name p) d) (\<lambda>h. on_patch_pod E h p d)"

definition update_node :: "env \<Rightarrow> KNode \<Rightarrow> go_error option act" where
  "update_node E n = perform (UpdateNode n) (\<lambda>h. on_update_node E h n)"

definition http_post :: "env \<Rightarrow> string \<Rightarrow> json \<Rightarrow> (go_error + int) act" where
  "http_post E url body = perform (Post url body) (\<lambda>h. on_post E h url body)"

definition range_over :: "(call list \<Rightarrow> 'a order) \<Rightarrow> 'a order act" where
  "range_over ord = perform RangeMap ord"

text \<open>\<open>metav1.Now()\<close>.\<close>

definition now :: "env \<Rightarrow> int act" where
  "now E = State (\<lambda>s. (on_now E (calls s), s))"

lemmas call_defs = get_mckube_def get_pod_def get_node_def update_mckube_def status_update_def
  list_mckubes_def list_pods_def list_realtime_def update_pod_def evict_create_def resize_patch_def
  patch_pod_def update_node_def http_post_def range_over_def

lemma run_now [run_simps, simp]: "run_state (now E) s = (on_now E (calls s), s)"
  by (simp add: now_def)

text \<open>
  An instance for concrete runs: objects are not found, lists are empty, writes are accepted and
  return the object as sent, the daemon answers 200, maps are ranged in list order. Runs that need
  other answers override them.
\<close>

definition demo_env :: env where
  "demo_env = \<lparr>
     on_get_mckube = \<lambda>_ _ _. Inl NotFound, on_get_pod = \<lambda>_ _ _. Inl NotFound,
     on_get_node = \<lambda>_ _. Inl NotFound, on_update_mckube = \<lambda>_ m. Inr m, on_status_update = \<lambda>_ m. Inr m,
     on_list_mckubes = \<lambda>_ _. Inr [], on_list_pods = \<lambda>_ _. Inr [], on_list_realtime = \<lambda>_ _. Inr [],
     on_update_pod = \<lambda>_ p. Inr p, on_evict = \<lambda>_ _ _. None, on_resize = \<lambda>_ p _. Inr p,
     on_patch_pod = \<lambda>_ p _. Inr p, on_update_node = \<lambda>_ _. None, on_post = \<lambda>_ _ _. Inr 200,
     on_now = \<lambda>h. int (length h), on_range_pods = \<lambda>_ xs. xs, on_range_cores = \<lambda>_ xs. xs,
     on_range_tiers = \<lambda>_ xs. xs, on_range_timers = \<lambda>_ xs. xs,
     NestedString = \<lambda>_ _. ('''', False, None), NestedInt64 = \<lambda>_ _. (0, False, None),
     NestedSlice = \<lambda>_ _. ([], False, None), format_v = \<lambda>_. '''',
     error_text = \<lambda>e. case e of NotFound \<Rightarrow> ''not found'' | ApiError t \<Rightarrow> t | _ \<Rightarrow> ''''\<rparr>"

definition demo_sys :: sys where
  "demo_sys = \<lparr>podRuntimeState = [], cpuPools = [], lastCpuBusyState = [], PressureState = [],
     ProcessingNodes = [], Timers = [], calls = []\<rparr>"

text \<open>The calls a handler has made, between the states before and after it.\<close>

definition new_calls :: "sys \<Rightarrow> sys \<Rightarrow> call list" where
  "new_calls s t = drop (length (calls s)) (calls t)"

lemma new_calls_add [simp]: "calls t = calls s @ new \<Longrightarrow> new_calls s t = new"
  by (simp add: new_calls_def)

text \<open>Ranging over a map visits its entries in some order.\<close>

definition env_orders :: "env \<Rightarrow> bool" where
  "env_orders E \<longleftrightarrow> (\<forall>h. is_order (on_range_pods E h) \<and> is_order (on_range_cores E h) \<and>
     is_order (on_range_tiers E h) \<and> is_order (on_range_timers E h))"

lemma env_orders_demo: "env_orders demo_env"
  by (simp add: env_orders_def demo_env_def is_order_def)

section \<open>The request to the daemon of a node\<close>

record CgroupRequest =
  req_ContainerID :: string
  req_Period :: int
  req_Runtime :: int
  req_Core :: "string option"

text \<open>\<open>json.Marshal\<close> of the request: \<open>core\<close> is left out when the pointer is nil.\<close>

definition cgroup_json :: "CgroupRequest \<Rightarrow> json" where
  "cgroup_json req = JObj
     ([(''container_id'', JStr (req_ContainerID req)), (''period'', JInt (req_Period req)),
       (''runtime'', JInt (req_Runtime req))] @
      (case req_Core req of None \<Rightarrow> [] | Some c \<Rightarrow> [(''core'', JStr c)]))"

definition daemon_url :: "string \<Rightarrow> string" where
  "daemon_url nodeIP = ''http://'' @ nodeIP @ '':8080/cgroup''"

definition SendRTRequest :: "env \<Rightarrow> string \<Rightarrow> CgroupRequest \<Rightarrow> go_error option act" where
  "SendRTRequest E nodeIP req = do {
     resp \<leftarrow> http_post E (daemon_url nodeIP) (cgroup_json req);
     State_Monad.return (case resp of
       Inl e \<Rightarrow> Some (PostFailed (daemon_url nodeIP))
     | Inr code \<Rightarrow> if code \<noteq> 200 then Some (BadStatus code) else None)
   }"

definition daemon_accepts :: "env \<Rightarrow> call list \<Rightarrow> string \<Rightarrow> CgroupRequest \<Rightarrow> bool" where
  "daemon_accepts E h nodeIP req \<longleftrightarrow> on_post E h (daemon_url nodeIP) (cgroup_json req) = Inr 200"

lemma run_SendRTRequest [run_simps]:
  "run_state (SendRTRequest E ip req) s =
   (case on_post E (calls s) (daemon_url ip) (cgroup_json req) of
      Inl e \<Rightarrow> Some (PostFailed (daemon_url ip))
    | Inr code \<Rightarrow> if code \<noteq> 200 then Some (BadStatus code) else None,
    s\<lparr>calls := calls s @ [Post (daemon_url ip) (cgroup_json req)]\<rparr>)"
  by (simp add: SendRTRequest_def http_post_def)

lemma SendRTRequest_ok:
  "fst (run_state (SendRTRequest E ip req) s) = None \<longleftrightarrow> daemon_accepts E (calls s) ip req"
  by (auto simp: run_SendRTRequest daemon_accepts_def split: sum.splits)

section \<open>Frames\<close>

text \<open>
  What a call changes: only the history. Any relation on states that the history is free in, or that
  lets it grow, is kept by every call; the three relations below are used throughout.
\<close>

definition grows :: "sys \<Rightarrow> sys \<Rightarrow> bool" where
  "grows s t \<longleftrightarrow> prefix (calls s) (calls t)"

definition only_calls :: "sys \<Rightarrow> sys \<Rightarrow> bool" where
  "only_calls s t \<longleftrightarrow> (\<exists>new. t = s\<lparr>calls := calls s @ new\<rparr>)"

definition same_runtime :: "sys \<Rightarrow> sys \<Rightarrow> bool" where
  "same_runtime s t \<longleftrightarrow> podRuntimeState t = podRuntimeState s"

definition same_pools :: "sys \<Rightarrow> sys \<Rightarrow> bool" where
  "same_pools s t \<longleftrightarrow> cpuPools t = cpuPools s"

lemma only_calls_add: "only_calls s (s\<lparr>calls := calls s @ new\<rparr>)"
  by (auto simp: only_calls_def)

lemma only_calls_trans: "only_calls s t \<Longrightarrow> only_calls t u \<Longrightarrow> only_calls s u"
  by (auto simp: only_calls_def)

text \<open>A frame of the controller's state: a call keeps it.\<close>

locale call_frame = frame R for R :: "sys \<Rightarrow> sys \<Rightarrow> bool" +
  assumes R_calls: "R s (s\<lparr>calls := calls s @ [c]\<rparr>)"
begin

lemma keeps_perform [keeps_intros]: "keeps (perform c answer)"
  by (simp add: state_io_rel_def R_calls)

lemma keeps_calls [keeps_intros]:
  "keeps (get_mckube E a b)" "keeps (get_pod E a b)" "keeps (get_node E a)" "keeps (update_mckube E m)"
  "keeps (status_update E m)" "keeps (list_mckubes E a)" "keeps (list_pods E o1)" "keeps (list_realtime E a)"
  "keeps (update_pod E p)" "keeps (evict_create E p)" "keeps (resize_patch E p j)" "keeps (patch_pod E p d)"
  "keeps (update_node E n)" "keeps (http_post E a j)" "keeps (range_over ord)"
  by (simp_all only: call_defs keeps_perform)

lemma keeps_now [keeps_intros]: "keeps (now E)"
  by (simp add: state_io_rel_def R_refl)

lemma keeps_send [keeps_intros]: "keeps (SendRTRequest E ip req)"
  unfolding SendRTRequest_def by (intro keeps_bind keeps_return keeps_calls)

end

definition same_pressure :: "sys \<Rightarrow> sys \<Rightarrow> bool" where
  "same_pressure s t \<longleftrightarrow> PressureState t = PressureState s \<and> ProcessingNodes t = ProcessingNodes s"

text \<open>Handlers that only read: the history grows by calls that change nothing.\<close>

definition is_read :: "call \<Rightarrow> bool" where
  "is_read c = (case c of GetMcKube _ _ \<Rightarrow> True | GetPod _ _ \<Rightarrow> True | GetNode _ \<Rightarrow> True
     | ListMcKubes _ \<Rightarrow> True | ListPods _ \<Rightarrow> True | ListRealtime _ \<Rightarrow> True | RangeMap \<Rightarrow> True | _ \<Rightarrow> False)"

definition only_reads :: "sys \<Rightarrow> sys \<Rightarrow> bool" where
  "only_reads s t \<longleftrightarrow> (\<exists>new. t = s\<lparr>calls := calls s @ new\<rparr> \<and> list_all is_read new)"

interpretation only_reads: frame only_reads
proof unfold_locales
  fix s :: sys
  show "only_reads s s" by (auto simp: only_reads_def intro!: exI [of _ "[]"])
next
  fix s t u :: sys
  assume "only_reads s t" "only_reads t u"
  then show "only_reads s u" by (auto simp: only_reads_def)
qed

lemma reads_perform: "is_read c \<Longrightarrow> only_reads.keeps (perform c answer)"
  by (auto simp: state_io_rel_def only_reads_def intro!: exI [of _ "[c]"])

lemma reads_calls [keeps_intros]:
  "only_reads.keeps (get_mckube E a b)" "only_reads.keeps (get_pod E a b)" "only_reads.keeps (get_node E a)"
  "only_reads.keeps (list_mckubes E a)" "only_reads.keeps (list_pods E x)" "only_reads.keeps (list_realtime E a)"
  "only_reads.keeps (range_over ord)"
  by (simp_all add: call_defs reads_perform is_read_def)

lemma only_readsD:
  assumes "only_reads.keeps m" and "run_state m s = (a, s')"
  obtains new where "s' = s\<lparr>calls := calls s @ new\<rparr>" and "list_all is_read new"
  using assms by (metis only_reads_def only_reads.keepsD snd_conv)

interpretation grows: call_frame grows
  by unfold_locales (auto simp: grows_def)

interpretation only_calls: call_frame only_calls
proof unfold_locales
  fix s :: sys
  show "only_calls s s" using only_calls_add [of s "[]"] by simp
next
  fix s t u :: sys
  assume "only_calls s t" "only_calls t u"
  then show "only_calls s u" by (rule only_calls_trans)
next
  fix s :: sys and c
  show "only_calls s (s\<lparr>calls := calls s @ [c]\<rparr>)" by (rule only_calls_add)
qed

interpretation same_runtime: call_frame same_runtime
  by unfold_locales (simp_all add: same_runtime_def)

interpretation same_pressure: call_frame same_pressure
  by unfold_locales (simp_all add: same_pressure_def)

interpretation same_pools: call_frame same_pools
  by unfold_locales (simp_all add: same_pools_def)

lemma call_frame_inv:
  assumes "\<And>s c. P (s\<lparr>calls := c\<rparr>) = P s"
  shows "call_frame (inv_rel P)"
  by unfold_locales (simp_all add: inv_rel_def assms)

context call_frame
begin

lemma R_many: "R s (s\<lparr>calls := calls s @ new\<rparr>)"
proof (induction new rule: rev_induct)
  case Nil
  show ?case by (simp add: R_refl)
next
  case (snoc c new)
  then show ?case using R_calls [of "s\<lparr>calls := calls s @ new\<rparr>" c] by (auto intro: R_trans)
qed

lemma keeps_only_calls: "only_calls.keeps m \<Longrightarrow> keeps m"
  unfolding state_io_rel_def only_calls_def by (metis R_many)

lemma keeps_only_reads: "only_reads.keeps m \<Longrightarrow> keeps m"
  unfolding state_io_rel_def only_reads_def by (metis R_many)

end

end
