(* ===== verification/Data_Collector.thy ===== *)
theory Data_Collector
  imports Cluster Float64
begin

text \<open>
  \<open>internal/ipvs/data_collector.go\<close>: the CPU requests of the pods of a node, and the table of
  real-time data read from the \<open>McKubeRealtime\<close> resources. A Go function that returns a nil map and a
  nil error is \<open>Inr []\<close>: a nil map reads as an empty one.
\<close>

section \<open>CPU requests\<close>

definition pod_milli :: "Pod \<Rightarrow> int64" where
  "pod_milli p = foldl (\<lambda>sumMilli c. case c_Requests c of None \<Rightarrow> sumMilli
                                      | Some rs \<Rightarrow> sumMilli + requests_cpu rs) 0 (Containers p)"

fun milli_loop :: "string \<Rightarrow> Pod list \<Rightarrow> (string, int64) gomap \<Rightarrow> (string, int64) gomap" where
  "milli_loop nodeName [] out = out"
| "milli_loop nodeName (p # ps) out =
     (if NodeName p \<noteq> nodeName then milli_loop nodeName ps out
      else milli_loop nodeName ps (gm_put (pod_Name p) (pod_milli p) out))"

definition ListPodMilliCPUByNode ::
    "env \<Rightarrow> string \<Rightarrow> KNode \<Rightarrow> (go_error + (string, int64) gomap) act" where
  "ListPodMilliCPUByNode E namespace node = do {
     r \<leftarrow> list_pods E (Some namespace);
     State_Monad.return (case r of Inl e \<Rightarrow> Inl e | Inr items \<Rightarrow> Inr (milli_loop (node_Name node) items []))
   }"

section \<open>Real-time data\<close>

definition sprint_v :: "env \<Rightarrow> json \<Rightarrow> string" where
  "sprint_v E v = (case v of JStr s \<Rightarrow> s | _ \<Rightarrow> format_v E v)"

definition obj_get :: "(string \<times> json) list \<Rightarrow> string \<Rightarrow> json" where
  "obj_get m k = (case map_of m k of Some v \<Rightarrow> v | None \<Rightarrow> JNull)"

fun wcet_loop :: "env \<Rightarrow> json list \<Rightarrow> RealTimeWCET list \<Rightarrow> go_error + RealTimeWCET list" where
  "wcet_loop E [] acc = Inr acc"
| "wcet_loop E (rtWcet # rest) acc =
     (case rtWcet of
        JObj m \<Rightarrow>
          (case (case obj_get m ''rtWcet'' of JInt v \<Rightarrow> Some v | JFloat v \<Rightarrow> Some (f64_to_int v) | _ \<Rightarrow> None) of
             None \<Rightarrow> Inl (ApiError ''rtWcet: unsupported number type'')
           | Some wcetInt \<Rightarrow>
               wcet_loop E rest (acc @ [\<lparr>wcet_Node = sprint_v E (obj_get m ''node''), RTWcet = wcetInt\<rparr>]))
      | _ \<Rightarrow> Inl (ApiError ''unable to obtain map from rtWcet object''))"

text \<open>\<open>if !found || err != nil { return nil, err }\<close>, with \<open>None\<close> for going on.\<close>

definition bad_field :: "bool \<times> go_error option \<Rightarrow> (go_error + rt_table) option" where
  "bad_field f = (case f of (found, err) \<Rightarrow>
     if \<not> found \<or> err \<noteq> None then Some (case err of Some e \<Rightarrow> Inl e | None \<Rightarrow> Inr []) else None)"

fun realtime_loop :: "env \<Rightarrow> json list \<Rightarrow> rt_table \<Rightarrow> go_error + rt_table" where
  "realtime_loop E [] result = Inr result"
| "realtime_loop E (item # items) result =
     (let appName = NestedString E item [''metadata'', ''name''];
          criticality = NestedString E item [''spec'', ''criticality''];
          rtDeadline = NestedInt64 E item [''spec'', ''rtDeadline''];
          rtPeriod = NestedInt64 E item [''spec'', ''rtPeriod''];
          rtWcets = NestedSlice E item [''spec'', ''rtWcets''] in
      case bad_field (snd appName) of Some r \<Rightarrow> r | None \<Rightarrow>
      case bad_field (snd criticality) of Some r \<Rightarrow> r | None \<Rightarrow>
      case bad_field (snd rtDeadline) of Some r \<Rightarrow> r | None \<Rightarrow>
      case bad_field (snd rtPeriod) of Some r \<Rightarrow> r | None \<Rightarrow>
      case bad_field (snd rtWcets) of Some r \<Rightarrow> r | None \<Rightarrow>
      case wcet_loop E (fst rtWcets) [] of
        Inl e \<Rightarrow> Inl e
      | Inr ws \<Rightarrow> realtime_loop E items
          (gm_put (fst appName)
             \<lparr>rt_Criticality = fst criticality, RTDeadline = fst rtDeadline, RTPeriod = fst rtPeriod,
              RTWcets = ws\<rparr> result))"

definition GetRealTimeData :: "env \<Rightarrow> (go_error + rt_table) act" where
  "GetRealTimeData E = do {
     r \<leftarrow> list_realtime E ''default'';
     State_Monad.return (case r of Inl e \<Rightarrow> Inl e | Inr items \<Rightarrow> realtime_loop E items [])
   }"

context call_frame
begin

lemma keeps_collect [keeps_intros]:
  "keeps (ListPodMilliCPUByNode E ns node)" "keeps (GetRealTimeData E)"
  unfolding ListPodMilliCPUByNode_def GetRealTimeData_def
  by (intro keeps_bind keeps_return keeps_calls)+

end

lemma reads_collect [keeps_intros]:
  "only_reads.keeps (ListPodMilliCPUByNode E ns node)" "only_reads.keeps (GetRealTimeData E)"
  unfolding ListPodMilliCPUByNode_def GetRealTimeData_def
  by (intro only_reads.keeps_bind only_reads.keeps_return reads_calls)+

section \<open>What they compute\<close>

lemma milli_loop_lookup:
  "map_of (milli_loop node ps out) n =
   (case find (\<lambda>p. pod_Name p = n \<and> NodeName p = node) (rev ps) of
      Some p \<Rightarrow> Some (pod_milli p) | None \<Rightarrow> map_of out n)"
  by (induction ps arbitrary: out) (auto split: option.splits simp: find_append)

text \<open>An item that reads into a table entry, and the entry.\<close>

definition item_entry :: "env \<Rightarrow> json \<Rightarrow> (string \<times> RealTimeData) option" where
  "item_entry E item =
     (let appName = NestedString E item [''metadata'', ''name''];
          criticality = NestedString E item [''spec'', ''criticality''];
          rtDeadline = NestedInt64 E item [''spec'', ''rtDeadline''];
          rtPeriod = NestedInt64 E item [''spec'', ''rtPeriod''];
          rtWcets = NestedSlice E item [''spec'', ''rtWcets''] in
      if snd appName = (True, None) \<and> snd criticality = (True, None) \<and> snd rtDeadline = (True, None) \<and>
         snd rtPeriod = (True, None) \<and> snd rtWcets = (True, None)
      then (case wcet_loop E (fst rtWcets) [] of
              Inl _ \<Rightarrow> None
            | Inr ws \<Rightarrow> Some (fst appName, \<lparr>rt_Criticality = fst criticality, RTDeadline = fst rtDeadline,
                                  RTPeriod = fst rtPeriod, RTWcets = ws\<rparr>))
      else None)"

text \<open>An item whose first unusable field is simply absent: found is false and there is no error.\<close>

definition item_incomplete :: "env \<Rightarrow> json \<Rightarrow> bool" where
  "item_incomplete E item =
     (let fs = [snd (NestedString E item [''metadata'', ''name'']),
                snd (NestedString E item [''spec'', ''criticality'']),
                snd (NestedInt64 E item [''spec'', ''rtDeadline'']),
                snd (NestedInt64 E item [''spec'', ''rtPeriod'']),
                snd (NestedSlice E item [''spec'', ''rtWcets''])]
      in find (\<lambda>f. f \<noteq> (True, None)) fs = Some (False, None))"

lemma bad_field_None: "bad_field f = None \<longleftrightarrow> f = (True, None)"
  by (auto simp: bad_field_def split: prod.splits)

lemma bad_field_ok [simp]: "bad_field (True, None) = None"
  by (simp add: bad_field_def)

lemma bad_field_absent [simp]: "bad_field (False, None) = Some (Inr [])"
  by (simp add: bad_field_def)

lemma realtime_loop_entry:
  "item_entry E item = Some (n, d) \<Longrightarrow> realtime_loop E (item # items) result = realtime_loop E items (gm_put n d result)"
  by (auto simp: item_entry_def Let_def split: if_splits sum.splits)

lemma realtime_loop_incomplete:
  assumes "item_incomplete E item"
  shows "realtime_loop E (item # items) result = Inr []"
  using assms bad_field_None
  by (auto simp: item_incomplete_def Let_def split: if_splits option.splits)

lemma realtime_loop_entries:
  "list_all2 (\<lambda>item e. item_entry E item = Some e) items es \<Longrightarrow>
   realtime_loop E (items @ rest) result =
   realtime_loop E rest (fold (\<lambda>(n, d). gm_put n d) es result)"
  by (induction items es arbitrary: result rule: list_all2_induct)
    (auto simp: realtime_loop_entry simp del: realtime_loop.simps(2))

section \<open>Properties\<close>

text \<open>
  C40: when every real-time resource is complete, the table holds for each application name the data
  of the last resource of that name; but as soon as one resource lacks a required field, the call
  reports success with an empty table, and everything read before it is lost.
\<close>

theorem GetRealTimeData_all_or_nothing:
  assumes "on_list_realtime E (calls s) ''default'' = Inr (items @ rest)"
    and "list_all2 (\<lambda>item e. item_entry E item = Some e) items es"
  shows "(rest = [] \<longrightarrow> (\<exists>t. fst (run_state (GetRealTimeData E) s) = Inr t \<and>
      (\<forall>n. map_of t n = map_of (rev es) n))) \<and>
    (rest \<noteq> [] \<and> item_incomplete E (hd rest) \<longrightarrow> fst (run_state (GetRealTimeData E) s) = Inr [])"
proof (intro conjI impI)
  have run: "fst (run_state (GetRealTimeData E) s) = realtime_loop E (items @ rest) []"
    using assms(1) by (simp add: GetRealTimeData_def list_realtime_def)
  have fold: "map_of (fold (\<lambda>(n, d). gm_put n d) es t) = map_of (rev es @ t)" for t :: rt_table
    by (induction es arbitrary: t) (auto simp: fun_eq_iff map_add_def split: option.splits)
  {
    assume "rest = []"
    then show "\<exists>t. fst (run_state (GetRealTimeData E) s) = Inr t \<and> (\<forall>n. map_of t n = map_of (rev es) n)"
      using run realtime_loop_entries [OF assms(2), of "[]" "[]"] fold [of "[]"] by simp
  next
    assume "rest \<noteq> [] \<and> item_incomplete E (hd rest)"
    then show "fst (run_state (GetRealTimeData E) s) = Inr []"
      using run realtime_loop_entries [OF assms(2), of rest "[]"]
      by (cases rest) (simp_all add: realtime_loop_incomplete del: realtime_loop.simps(2))
  }
qed

definition demo_rt_env :: env where
  "demo_rt_env = demo_env\<lparr>
     on_list_realtime := \<lambda>_ _. Inr [JStr ''app'', JNull],
     NestedString := \<lambda>item path. case item of
         JStr n \<Rightarrow> (if path = [''metadata'', ''name''] then n else ''Low'', True, None)
       | _ \<Rightarrow> ('''', False, None),
     NestedInt64 := \<lambda>item path. (100, True, None),
     NestedSlice := \<lambda>item path. ([], True, None)\<rparr>"

theorem GetRealTimeData_all_or_nothing_witness:
  "fst (run_state (GetRealTimeData demo_rt_env) demo_sys) = Inr []"
proof -
  have "item_entry demo_rt_env (JStr ''app'') = Some (''app'',
      \<lparr>rt_Criticality = ''Low'', RTDeadline = 100, RTPeriod = 100, RTWcets = []\<rparr>)"
    by (simp add: item_entry_def demo_rt_env_def)
  moreover have "item_incomplete demo_rt_env JNull"
    by (simp add: item_incomplete_def demo_rt_env_def)
  ultimately show ?thesis
    using GetRealTimeData_all_or_nothing [of demo_rt_env demo_sys "[JStr ''app'']" "[JNull]"
        "[(''app'', \<lparr>rt_Criticality = ''Low'', RTDeadline = 100, RTPeriod = 100, RTWcets = []\<rparr>)]"]
    by (simp add: demo_rt_env_def)
qed

text \<open>
  On success, the table of CPU requests has an entry exactly for the names of the pods on the
  node, and the entry is the (64-bit) sum of the CPU requests of the last pod of that name.
\<close>

lemma ListPodMilliCPUByNode_requests:
  "case fst (run_state (ListPodMilliCPUByNode E ns node) s) of
     Inl e \<Rightarrow> on_list_pods E (calls s) (Some ns) = Inl e
   | Inr out \<Rightarrow> (\<exists>pods. on_list_pods E (calls s) (Some ns) = Inr pods \<and>
       (\<forall>n. map_of out n = map_option pod_milli
         (find (\<lambda>p. pod_Name p = n \<and> NodeName p = node_Name node) (rev pods))))"
  by (auto simp: ListPodMilliCPUByNode_def list_pods_def milli_loop_lookup split: sum.splits option.split)

end
