(* ===== verification/Pod_Spec.thy ===== *)
theory Pod_Spec
  imports Cluster Float64
begin

text \<open>
  \<open>DegradePodRequests\<close> of \<open>internal/ipvs/pod_spec_handler.go\<close>: lowering the CPU requests of a pod's
  containers by a ratio, never below 10 millicores, with a resize patch. The ratio the callers pass
  is the float 0.2; the main fact is the exact integer the code requests then.
\<close>

section \<open>The patch\<close>

definition degradeRatio :: rat where
  "degradeRatio = f64_round (2 / 10)"

definition degraded_milli :: "rat \<Rightarrow> int64 \<Rightarrow> int64" where
  "degraded_milli ratio oldMilli =
     (let newMilli = (word_of_int (f64_to_int (f64_mul (f64_of_int (sint oldMilli)) (f64_sub 1 ratio))) :: int64)
      in if sint newMilli < MinMilli then word_of_int MinMilli else newMilli)"

definition container_patch :: "rat \<Rightarrow> Container \<Rightarrow> json option" where
  "container_patch ratio c =
     (case c_Requests c of
        None \<Rightarrow> None
      | Some rs \<Rightarrow>
          (let oldMilli = requests_cpu rs in
           if oldMilli = 0 then None
           else Some (JObj [(''name'', JStr (c_Name c)),
             (''resources'', JObj
               ((''requests'', JObj [(''cpu'', JStr (show_int (sint (degraded_milli ratio oldMilli)) @ ''m''))])
                # (if c_Limits c = [] then []
                   else [(''limits'', JObj (map (\<lambda>(k, q). (k, JStr q)) (c_Limits c)))])))])))"

definition degrade_patches :: "rat \<Rightarrow> Pod \<Rightarrow> json list" where
  "degrade_patches ratio pod = List.map_filter (container_patch ratio) (Containers pod)"

text \<open>The patch call overwrites the caller's pod with the server's answer, which is returned.\<close>

definition DegradePodRequests :: "env \<Rightarrow> Pod \<Rightarrow> rat \<Rightarrow> (go_error + Pod) act" where
  "DegradePodRequests E pod ratio =
     (let pr = degrade_patches ratio pod in
      if pr = [] then State_Monad.return (Inr pod)
      else resize_patch E pod (JObj [(''spec'', JObj [(''containers'', JArr pr)])]))"

context call_frame
begin

lemma keeps_degrade [keeps_intros]: "keeps (DegradePodRequests E pod ratio)"
  by (simp add: DegradePodRequests_def Let_def keeps_return keeps_calls)

end

section \<open>The arithmetic of one step\<close>

lemma f64_02: "degradeRatio = 7205759403792794 / 2 ^ 55"
  using f64_round_eval [of 5 1 55 7205759403792794] by (simp add: degradeRatio_def)

lemma f64_08: "f64_sub 1 degradeRatio = 7205759403792794 / 2 ^ 53"
proof -
  let ?x = "28823037615171174 / 2 ^ 55 :: rat"
  have e: "(2 :: rat) powi (- 53) = 1 / 2 ^ 53" by (simp add: power_int_def field_simps)
  have "f64_round ?x = of_int (round_even (?x / 2 powi (- 53))) * 2 powi (- 53)"
    by (rule f64_round_at) (simp_all only: e, simp_all)
  moreover have "?x / 2 powi (- 53) = 14411518807585587 / 2" by (simp add: e)
  moreover have "\<lfloor>14411518807585587 / 2 :: rat\<rfloor> = 7205759403792793"
    by (simp add: floor_eq_iff)
  ultimately have "f64_round ?x = 7205759403792794 / 2 ^ 53" by (simp add: round_even_def Let_def e)
  moreover have "1 - degradeRatio = ?x" unfolding f64_02 by simp
  ultimately show ?thesis by (simp only: f64_sub_def)
qed

lemma degraded_milli_eq:
  assumes "0 \<le> sint m" and "sint m < 2 ^ 48"
  shows "sint (degraded_milli degradeRatio m) = max 10 (4 * sint m div 5)"
proof -
  let ?n = "sint m" and ?c = "7205759403792794 / 2 ^ 53 :: rat"
  let ?v = "of_int (4 * ?n) / of_int 5 :: rat" and ?y = "of_int ?n * ?c"
  have a: "0 \<le> 4 * ?n" "4 * ?n < 2 ^ 50" using assms by simp_all
  have n: "0 \<le> (of_int ?n :: rat)" using assms by simp
  have "\<lfloor>f64_round ?y\<rfloor> = 4 * ?n div 5"
  proof (cases "5 dvd 4 * ?n")
    case True
    then show ?thesis
      using a n by (intro f64.floor_div_dvd) (auto simp: less_le)
  next
    case False
    then show ?thesis
      using a n by (intro f64.floor_div_not_dvd) (simp_all add: abs_if)
  qed
  moreover have "0 \<le> f64_round ?y" using n by (intro f64.nonneg) simp
  moreover have q: "0 \<le> 4 * ?n div 5" "4 * ?n div 5 < 2 ^ 50"
    using a by (simp_all add: pos_imp_zdiv_nonneg_iff)
  ultimately have "f64_to_int (f64_round ?y) = 4 * ?n div 5" by (simp add: f64_to_int_floor)
  moreover have "f64_of_int ?n = of_int ?n" using assms by (simp add: f64_of_int_exact)
  moreover have "sint (word_of_int (4 * ?n div 5) :: int64) = 4 * ?n div 5"
    using q by (intro sint64_of_int) simp_all
  ultimately show ?thesis
    by (simp add: degraded_milli_def Let_def f64_08 f64_mul_def MinMilli_def max_def)
qed

text \<open>The request of a container, with 0 for none: what the patch is about.\<close>

definition container_milli :: "Container \<Rightarrow> int64" where
  "container_milli c = (case c_Requests c of None \<Rightarrow> 0 | Some rs \<Rightarrow> requests_cpu rs)"

lemma container_patch_None: "container_patch r c = None \<longleftrightarrow> container_milli c = 0"
  by (auto simp: container_patch_def container_milli_def Let_def split: option.splits)

lemma degrade_patches_Nil: "degrade_patches r p = [] \<longleftrightarrow> (\<forall>c \<in> set (Containers p). container_milli c = 0)"
  by (auto simp: degrade_patches_def map_filter_def filter_empty_conv container_patch_None)

section \<open>Properties\<close>

text \<open>
  C38: one degradation step requests exactly four fifths of the old millicores, rounded down, and at
  least 10, for every request below 2 to the 48. So it never requests less than the floor, it lowers
  every request above the floor, and it \<^emph>\<open>raises\<close> a request that is below the floor.
\<close>

theorem degraded_milli_exact:
  assumes "0 \<le> sint m" and "sint m < 2 ^ 48"
  shows "sint (degraded_milli degradeRatio m) = max MinMilli (4 * sint m div 5) \<and>
    (sint m > MinMilli \<longleftrightarrow> sint (degraded_milli degradeRatio m) < sint m) \<and>
    (sint m < MinMilli \<longleftrightarrow> sint m < sint (degraded_milli degradeRatio m))"
  using degraded_milli_eq [OF assms] assms by (simp add: MinMilli_def) linarith

theorem degraded_milli_exact_witness:
  "sint (degraded_milli degradeRatio 500) = 400 \<and> sint (degraded_milli degradeRatio 5) = 10"
  using degraded_milli_exact [of 500] degraded_milli_exact [of 5] by (simp add: MinMilli_def)

end
