(* ===== verification/Pressure.thy ===== *)
theory Pressure
  imports Pod_Spec Data_Collector Go_Parse
begin

text \<open>
  The reaction to CPU pressure on a node, from \<open>internal/ipvs/event_handler.go\<close>: eviction of a pod,
  one round of processing on the current criticality tier, and the handler that prepares the round
  from the node's annotations and the lists of pods and real-time data. The Go code mutates the
  node's pressure state and the pods through pointers; here the round returns the new pressure state,
  and a pod the API server has answered for is replaced in the lists that held it. The replacement
  finds the pod by its value, where the code has a pointer to it: the lists of the code hold one
  pointer per item of an answer of the API server, whose items are pairwise different. Counters are
  Go integers of 64 bits.
\<close>

section \<open>Eviction\<close>

definition EvictPod :: "env \<Rightarrow> Pod \<Rightarrow> (go_error option \<times> Pod) act" where
  "EvictPod E pod = do {
     let labelled = pod\<lparr>pod_Labels := gm_put ''evicted'' ''true'' (pod_Labels pod)\<rparr>;
     r \<leftarrow> update_pod E labelled;
     let pod' = (case r of Inr p \<Rightarrow> p | Inl e \<Rightarrow> labelled);
     e \<leftarrow> evict_create E pod';
     State_Monad.return (e, pod')
   }"

section \<open>One round on the current tier\<close>

definition replace_pod :: "(Pod \<times> Pod) option \<Rightarrow> Pod list \<Rightarrow> Pod list" where
  "replace_pod r ps = (case r of None \<Rightarrow> ps | Some (old, new) \<Rightarrow> map (\<lambda>p. if p = old then new else p) ps)"

definition current_milli :: "(string, int64) gomap \<Rightarrow> Pod \<Rightarrow> int" where
  "current_milli podMilli p =
     (case map_of podMilli (pod_Name p) of Some m \<Rightarrow> if 0 < sint m then sint m else 0 | None \<Rightarrow> 0)"

definition degrade_step ::
    "env \<Rightarrow> PerTierState \<Rightarrow> Pod list \<Rightarrow> (string, int64) gomap \<Rightarrow> int \<Rightarrow>
     (PerTierState \<times> (Pod \<times> Pod) option) act" where
  "degrade_step E pts targets podMilli overSec =
     (if 1 \<le> overSec \<and> \<not> EvictTried pts \<and>
         (DegradeCount pts = 0 \<or> 3 \<le> wrap64 (overSec - LastDegradeTime pts)) then
        (case PickHighestCPUFromMilli targets podMilli of
           None \<Rightarrow> State_Monad.return (pts, None)
         | Some best \<Rightarrow>
             if MinMilli < current_milli podMilli best then do {
               r \<leftarrow> DegradePodRequests E best degradeRatio;
               State_Monad.return (case r of
                 Inl e \<Rightarrow> (pts, None)
               | Inr best' \<Rightarrow> (pts\<lparr>DegradeCount := wrap64 (DegradeCount pts + 1), LastDegradeTime := overSec\<rparr>,
                              Some (best, best')))
             }
             else State_Monad.return (pts\<lparr>DegradeCount := 999\<rparr>, None))
      else State_Monad.return (pts, None))"

definition evict_step ::
    "env \<Rightarrow> PerTierState \<Rightarrow> Pod list \<Rightarrow> (string, int64) gomap \<Rightarrow> int \<Rightarrow>
     (PerTierState \<times> (Pod \<times> Pod) option) act" where
  "evict_step E pts targets podMilli overSec =
     (if 10 \<le> overSec \<and> 0 < DegradeCount pts \<and> \<not> EvictTried pts then
        (case PickHighestCPUFromMilli targets podMilli of
           None \<Rightarrow> State_Monad.return (pts, None)
         | Some victim \<Rightarrow> do {
             (e, victim') \<leftarrow> EvictPod E victim;
             State_Monad.return (pts\<lparr>EvictTried := True\<rparr>, Some (victim, victim'))
           })
      else State_Monad.return (pts, None))"

definition put_tier :: "string \<Rightarrow> PerTierState \<Rightarrow> NodePressureState \<Rightarrow> NodePressureState" where
  "put_tier t pts st = st\<lparr>PerTier := gm_put t pts (PerTier st)\<rparr>"

definition advance_tier :: "string \<Rightarrow> NodePressureState \<Rightarrow> NodePressureState" where
  "advance_tier nextTier st =
     (let st1 = st\<lparr>CurrentTier := nextTier,
                   CurrentTierIdx := (case index_of nextTier (Tiers st) of
                                        Some i \<Rightarrow> i | None \<Rightarrow> CurrentTierIdx st)\<rparr> in
      if map_of (PerTier st1) nextTier = None then put_tier nextTier new_tier st1 else st1)"

definition tier_state :: "NodePressureState \<Rightarrow> PerTierState" where
  "tier_state st = (case map_of (PerTier st) (CurrentTier st) of Some p \<Rightarrow> p | None \<Rightarrow> new_tier)"

definition act_on_tier ::
    "env \<Rightarrow> NodePressureState \<Rightarrow> Pod list \<Rightarrow> Pod list \<Rightarrow> rt_table \<Rightarrow> (string, int64) gomap \<Rightarrow> int \<Rightarrow>
     NodePressureState act" where
  "act_on_tier E st targets nodePods rtData podMilli overSec = do {
     (pts1, r1) \<leftarrow> degrade_step E ((tier_state st)\<lparr>MissingTicks := 0\<rparr>) targets podMilli overSec;
     (pts2, r2) \<leftarrow> evict_step E pts1 (replace_pod r1 targets) podMilli overSec;
     let pods = replace_pod r2 (replace_pod r1 nodePods);
     let st1 = put_tier (CurrentTier st) pts2 st;
     State_Monad.return
       (if 0 < DegradeCount pts2 \<and> EvictTried pts2 \<and>
           \<not> HasActionableInTier pods rtData (CurrentTier st) then
          (case NextHigherTier (CurrentTier st) (Tiers st) of
             Some nextTier \<Rightarrow> advance_tier nextTier st1
           | None \<Rightarrow> st1)
        else st1)
   }"

definition TierMissingTolerance :: int where "TierMissingTolerance = 2"

lemma CurrentTier_advance [simp]:
  "CurrentTier (advance_tier t st) = t" "Tiers (advance_tier t st) = Tiers st"
  by (simp_all add: advance_tier_def put_tier_def Let_def)

lemma put_tier_simps [simp]:
  "CurrentTier (put_tier t p st) = CurrentTier st" "Tiers (put_tier t p st) = Tiers st"
  by (simp_all add: put_tier_def)

function ProcessCurrentTier ::
    "env \<Rightarrow> NodePressureState \<Rightarrow> Pod list \<Rightarrow> rt_table \<Rightarrow> (string, int64) gomap \<Rightarrow> int \<Rightarrow>
     NodePressureState act" where
  "ProcessCurrentTier E st nodePods rtData podMilli overSec =
     (let curTier = CurrentTier st;
          pts = tier_state st;
          targets = FilterPodsByCriticality nodePods rtData curTier in
      if targets = [] then
        (let pts1 = pts\<lparr>MissingTicks := wrap64 (MissingTicks pts + 1)\<rparr>;
             st1 = put_tier curTier pts1 st in
         if TierMissingTolerance \<le> MissingTicks pts1 then
           (case NextHigherTier curTier (Tiers st) of
              Some nextTier \<Rightarrow>
                ProcessCurrentTier E (advance_tier nextTier st1) nodePods rtData podMilli overSec
            | None \<Rightarrow> State_Monad.return st1)
         else State_Monad.return st1)
      else act_on_tier E st targets nodePods rtData podMilli overSec)"
  by pat_completeness auto
termination
  by (relation "measure (\<lambda>(E, st, _). nat (3 - rank_of (CurrentTier st)))")
    (auto dest!: NextHigherTier_Some(4))

declare ProcessCurrentTier.simps [simp del]

section \<open>The handler\<close>

definition AnnUsageKey :: string where "AnnUsageKey = ''mckube.sdv.com/cpu-usage''"
definition AnnDurKey :: string where "AnnDurKey = ''mckube.sdv.com/cpu-over90-duration-s''"
definition AnnCpuBusyKey :: string where "AnnCpuBusyKey = ''mckube.sdv.com/isCpuBusy''"
definition TargetNamespace :: string where "TargetNamespace = ''default''"

definition over_seconds :: "string \<Rightarrow> int" where
  "over_seconds overSecStr =
     (if overSecStr = '''' then 0
      else (case parse_int64 overSecStr of Some sec \<Rightarrow> if 0 \<le> sec then sec else 0 | None \<Rightarrow> 0))"

definition ensure_current :: "NodePressureState \<Rightarrow> NodePressureState" where
  "ensure_current st =
     (if CurrentTier st = '''' \<or> int (length (Tiers st)) \<le> CurrentTierIdx st then
        (let st1 = st\<lparr>CurrentTierIdx := 0, CurrentTier := Tiers st ! 0\<rparr> in
         if map_of (PerTier st1) (CurrentTier st1) = None then put_tier (CurrentTier st1) new_tier st1 else st1)
      else st)"

definition put_pressure :: "string \<Rightarrow> NodePressureState \<Rightarrow> unit act" where
  "put_pressure nodeName st = State_Monad.update (\<lambda>s. s\<lparr>PressureState := gm_put nodeName st (PressureState s)\<rparr>)"

text \<open>The part of the handler that runs once all data is there.\<close>

definition pressure_round ::
    "env \<Rightarrow> string \<Rightarrow> Pod list \<Rightarrow> rt_table \<Rightarrow> (string, int64) gomap \<Rightarrow> int \<Rightarrow> unit act" where
  "pressure_round E nodeName nodePods rtData podMilli overSec = do {
     s \<leftarrow> State_Monad.get;
     let st0 = (case map_of (PressureState s) nodeName of Some st \<Rightarrow> st | None \<Rightarrow> new_pressure);
     ord \<leftarrow> range_over (on_range_tiers E);
     let st1 = ReindexCurrentTier (st0\<lparr>Tiers := CollectSortedTiers ord nodePods rtData, AboveSec := overSec\<rparr>);
     if Tiers st1 = [] then put_pressure nodeName st1
     else do {
       st2 \<leftarrow> ProcessCurrentTier E (ensure_current st1) nodePods rtData podMilli overSec;
       put_pressure nodeName st2
     }
   }"

text \<open>
  The data of a round, read before anything is changed: the pods of the node, the real-time data, the
  CPU requests and the seconds above 90 percent; \<open>None\<close> where the handler returns early.
\<close>

definition pressure_inputs ::
    "env \<Rightarrow> string \<Rightarrow> (Pod list \<times> rt_table \<times> (string, int64) gomap \<times> int) option act" where
  "pressure_inputs E nodeName = do {
     r \<leftarrow> get_node E nodeName;
     case r of Inl _ \<Rightarrow> State_Monad.return None | Inr node \<Rightarrow>
       (let ann = node_Annotations node;
            cpuUsageStr = trim_space (gm_str ann AnnUsageKey);
            overSec = over_seconds (trim_space (gm_str ann AnnDurKey)) in
        if cpuUsageStr = [] \<or> \<not> parse_float_ok cpuUsageStr then State_Monad.return None
        else do {
          rt \<leftarrow> GetRealTimeData E;
          case rt of Inl _ \<Rightarrow> State_Monad.return None | Inr rtData \<Rightarrow> do {
            l \<leftarrow> list_pods E (Some TargetNamespace);
            case l of Inl _ \<Rightarrow> State_Monad.return None | Inr items \<Rightarrow>
              (let nodePods = [p \<leftarrow> items. NodeName p = nodeName] in
               if nodePods = [] then State_Monad.return None
               else do {
                 m \<leftarrow> ListPodMilliCPUByNode E TargetNamespace node;
                 State_Monad.return (case m of Inl _ \<Rightarrow> None
                   | Inr podMilli \<Rightarrow> Some (nodePods, rtData, podMilli, overSec))
               })
          }
        })
   }"

definition HandleNodeCPUPressure :: "env \<Rightarrow> string \<Rightarrow> unit act" where
  "HandleNodeCPUPressure E nodeName = do {
     i \<leftarrow> pressure_inputs E nodeName;
     case i of None \<Rightarrow> State_Monad.return ()
     | Some (nodePods, rtData, podMilli, overSec) \<Rightarrow>
         pressure_round E nodeName nodePods rtData podMilli overSec
   }"

section \<open>The calls of a round\<close>

context call_frame
begin

lemma keeps_evict [keeps_intros]: "keeps (EvictPod E p)"
  unfolding EvictPod_def Let_def by (intro keeps_bind keeps_return keeps_calls)

lemma keeps_steps [keeps_intros]:
  "keeps (degrade_step E pts targets pm over)" "keeps (evict_step E pts targets pm over)"
  unfolding degrade_step_def evict_step_def
  by (auto split: option.split intro!: keeps_intros)

lemma keeps_act [keeps_intros]: "keeps (act_on_tier E st targets pods rt pm over)"
  unfolding act_on_tier_def Let_def
  by (auto split: prod.split intro!: keeps_bind keeps_steps keeps_return)

lemma keeps_round [keeps_intros]: "keeps (ProcessCurrentTier E st pods rt pm over)"
proof (induction E st pods rt pm over rule: ProcessCurrentTier.induct)
  case (1 E st pods rt pm over)
  show ?case
    by (subst ProcessCurrentTier.simps)
      (auto simp: Let_def split: option.split intro!: keeps_return keeps_act 1)
qed

end

text \<open>
  The API server's answer to a write is the object that was written: it has the same name and
  namespace, which the API does not let a write change. Where the identity of an evicted pod is
  stated, it is stated under this condition.
\<close>

definition writes_keep_identity :: "env \<Rightarrow> bool" where
  "writes_keep_identity E \<longleftrightarrow>
     (\<forall>h p j p'. on_resize E h p j = Inr p' \<longrightarrow> pod_Name p' = pod_Name p \<and> pod_Namespace p' = pod_Namespace p) \<and>
     (\<forall>h p p'. on_update_pod E h p = Inr p' \<longrightarrow> pod_Name p' = pod_Name p \<and> pod_Namespace p' = pod_Namespace p)"

definition same_pod :: "Pod \<Rightarrow> Pod \<Rightarrow> bool" where
  "same_pod p q \<longleftrightarrow> pod_Name p = pod_Name q \<and> pod_Namespace p = pod_Namespace q"

text \<open>The resize of a round: of the pod with the largest CPU request, if that is above the floor.\<close>

definition degrade_body :: "Pod \<Rightarrow> json" where
  "degrade_body p = JObj [(''spec'', JObj [(''containers'', JArr (degrade_patches degradeRatio p))])]"

definition degrade_calls :: "(string, int64) gomap \<Rightarrow> Pod list \<Rightarrow> call list \<Rightarrow> bool" where
  "degrade_calls pm targets d \<longleftrightarrow>
     (\<exists>p. PickHighestCPUFromMilli targets pm = Some p \<and> MinMilli < current_milli pm p \<and>
        degrade_patches degradeRatio p \<noteq> [] \<and>
        d = [ResizePatch (pod_Namespace p) (pod_Name p) (degrade_body p)])"

text \<open>The eviction of a round: the label first, then the eviction.\<close>

definition evict_calls :: "env \<Rightarrow> Pod list \<Rightarrow> call list \<Rightarrow> bool" where
  "evict_calls E targets e \<longleftrightarrow>
     (\<exists>q ns n. gm_str (pod_Labels q) ''evicted'' = ''true'' \<and> e = [UpdatePod q, EvictionCreate ns n] \<and>
        (writes_keep_identity E \<longrightarrow>
          (\<exists>p \<in> set targets. same_pod q p \<and> ns = pod_Namespace p \<and> n = pod_Name p)))"

lemma run_EvictPod:
  assumes "run_state (EvictPod E p) s = ((e, p'), s')" and "p \<in> set targets"
  shows "\<exists>d. s' = s\<lparr>calls := calls s @ d\<rparr> \<and> evict_calls E targets d"
proof -
  let ?q = "p\<lparr>pod_Labels := gm_put ''evicted'' ''true'' (pod_Labels p)\<rparr>"
  have s': "s' = s\<lparr>calls := calls s @ [UpdatePod ?q, EvictionCreate (pod_Namespace p') (pod_Name p')]\<rparr>"
    using assms(1) by (auto simp: EvictPod_def call_defs Let_def split: sum.splits)
  have "writes_keep_identity E \<Longrightarrow> same_pod p' p"
    using assms(1)
    by (auto simp: EvictPod_def call_defs Let_def writes_keep_identity_def same_pod_def split: sum.splits)
  then have "evict_calls E targets [UpdatePod ?q, EvictionCreate (pod_Namespace p') (pod_Name p')]"
    using assms(2) unfolding evict_calls_def
    by (intro exI [of _ ?q] exI [of _ "pod_Namespace p'"] exI [of _ "pod_Name p'"])
      (auto simp: same_pod_def gm_str_def)
  then show ?thesis using s' by blast
qed

lemma run_degrade:
  "run_state (DegradePodRequests E p degradeRatio) s =
    (if degrade_patches degradeRatio p = [] then (Inr p, s)
     else (on_resize E (calls s) p (degrade_body p),
       s\<lparr>calls := calls s @ [ResizePatch (pod_Namespace p) (pod_Name p) (degrade_body p)]\<rparr>))"
  by (simp add: DegradePodRequests_def resize_patch_def degrade_body_def Let_def)

text \<open>
  What counts a degradation when none was counted before: the largest pod is at or below the floor,
  or it has nothing to resize, or its resize was sent and accepted.
\<close>

definition newly_degraded ::
    "env \<Rightarrow> call list \<Rightarrow> (string, int64) gomap \<Rightarrow> Pod list \<Rightarrow> call list \<Rightarrow> bool" where
  "newly_degraded E h pm targets new \<longleftrightarrow>
     (\<exists>p. PickHighestCPUFromMilli targets pm = Some p \<and>
        (current_milli pm p \<le> MinMilli \<or> degrade_patches degradeRatio p = [] \<or>
         (\<exists>rest. new = ResizePatch (pod_Namespace p) (pod_Name p) (degrade_body p) # rest) \<and>
         (\<exists>p'. on_resize E h p (degrade_body p) = Inr p')))"

lemma run_degrade_step:
  assumes "run_state (degrade_step E pts targets pm over) s = ((pts', r), s')"
  shows "\<exists>d. s' = s\<lparr>calls := calls s @ d\<rparr> \<and>
      (d = [] \<or> 1 \<le> over \<and> \<not> EvictTried pts \<and> degrade_calls pm targets d) \<and>
      (0 < DegradeCount pts' \<longrightarrow> 0 < DegradeCount pts \<or> (\<forall>e. newly_degraded E (calls s) pm targets (d @ e)))"
    and "EvictTried pts' = EvictTried pts"
    and "r = Some (old, new) \<Longrightarrow> old \<in> set targets \<and> (writes_keep_identity E \<longrightarrow> same_pod new old)"
proof -
  consider (none) "r = None" "s' = s" "pts' = pts"
    | (floor) p where "PickHighestCPUFromMilli targets pm = Some p" "current_milli pm p \<le> MinMilli"
      "r = None" "s' = s" "EvictTried pts' = EvictTried pts"
    | (resize) p a where "1 \<le> over" "\<not> EvictTried pts" "PickHighestCPUFromMilli targets pm = Some p"
      "MinMilli < current_milli pm p" "run_state (DegradePodRequests E p degradeRatio) s = (a, s')"
      "EvictTried pts' = EvictTried pts"
      "(\<exists>e. a = Inl e) \<and> r = None \<and> pts' = pts \<or> (\<exists>p'. a = Inr p' \<and> r = Some (p, p'))"
    using assms
    by (auto simp: degrade_step_def not_less split: if_splits option.splits sum.splits prod.splits)
  note cases = this
  show "EvictTried pts' = EvictTried pts" by (cases rule: cases) simp_all
  show "\<exists>d. s' = s\<lparr>calls := calls s @ d\<rparr> \<and>
      (d = [] \<or> 1 \<le> over \<and> \<not> EvictTried pts \<and> degrade_calls pm targets d) \<and>
      (0 < DegradeCount pts' \<longrightarrow> 0 < DegradeCount pts \<or> (\<forall>e. newly_degraded E (calls s) pm targets (d @ e)))"
  proof (cases rule: cases)
    case none
    then show ?thesis by (intro exI [of _ "[]"]) simp
  next
    case floor
    then show ?thesis by (intro exI [of _ "[]"]) (simp add: newly_degraded_def)
  next
    case resize
    show ?thesis
    proof (cases "degrade_patches degradeRatio p = []")
      case True
      then show ?thesis using resize
        by (intro exI [of _ "[]"]) (simp add: newly_degraded_def run_degrade)
    next
      case False
      let ?c = "ResizePatch (pod_Namespace p) (pod_Name p) (degrade_body p)"
      have "degrade_calls pm targets [?c]" using resize False by (auto simp: degrade_calls_def)
      then show ?thesis using resize False
        by (intro exI [of _ "[?c]"]) (auto simp: newly_degraded_def run_degrade)
    qed
  qed
  show "old \<in> set targets \<and> (writes_keep_identity E \<longrightarrow> same_pod new old)" if "r = Some (old, new)"
  proof (cases rule: cases)
    case resize
    then show ?thesis using that pick_Some(1)
      by (auto simp: run_degrade writes_keep_identity_def same_pod_def split: if_splits)
  qed (use that in simp_all)
qed

lemma run_evict_step:
  assumes "run_state (evict_step E pts targets pm over) s = ((pts', r), s')"
  shows "\<exists>e. s' = s\<lparr>calls := calls s @ e\<rparr> \<and>
    (e = [] \<and> pts' = pts \<or>
     10 \<le> over \<and> \<not> EvictTried pts \<and> 0 < DegradeCount pts \<and> evict_calls E targets e \<and>
       pts' = pts\<lparr>EvictTried := True\<rparr>)"
proof (cases "10 \<le> over \<and> 0 < DegradeCount pts \<and> \<not> EvictTried pts \<and> PickHighestCPUFromMilli targets pm \<noteq> None")
  case True
  then obtain p where p: "PickHighestCPUFromMilli targets pm = Some p" by blast
  obtain e p' s1 where ev: "run_state (EvictPod E p) s = ((e, p'), s1)" by (metis prod.exhaust)
  have "s' = s1 \<and> pts' = pts\<lparr>EvictTried := True\<rparr>"
    using assms True p ev by (simp add: evict_step_def)
  then show ?thesis
    using run_EvictPod [OF ev pick_Some(1) [OF p]] True by blast
next
  case False
  then have "s' = s \<and> pts' = pts"
    using assms by (cases "PickHighestCPUFromMilli targets pm") (auto simp: evict_step_def split: if_splits)
  then show ?thesis by (intro exI [of _ "[]"]) simp
qed

lemma evict_calls_replace:
  assumes "\<And>old new. r = Some (old, new) \<Longrightarrow> writes_keep_identity E \<Longrightarrow> same_pod new old"
    and "evict_calls E (replace_pod r targets) e"
  shows "evict_calls E targets e"
proof -
  have "\<exists>p \<in> set targets. same_pod t p" if "t \<in> set (replace_pod r targets)" "writes_keep_identity E" for t
    using that assms(1) by (fastforce simp: replace_pod_def same_pod_def split: option.splits if_splits)
  then show ?thesis using assms(2) unfolding evict_calls_def same_pod_def by metis
qed

text \<open>
  The calls of one round on a list of targets: at most one resize of a target, then at most one
  eviction of a target, each only when its time has come.
\<close>

definition round_calls ::
    "env \<Rightarrow> (string, int64) gomap \<Rightarrow> Pod list \<Rightarrow> int \<Rightarrow> call list \<Rightarrow> bool" where
  "round_calls E pm targets over new \<longleftrightarrow> (\<exists>d e. new = d @ e \<and>
     (d = [] \<or> 1 \<le> over \<and> degrade_calls pm targets d) \<and>
     (e = [] \<or> 10 \<le> over \<and> evict_calls E targets e))"

lemma degrade_no_eviction: "degrade_calls pm targets d \<Longrightarrow> EvictionCreate ns n \<notin> set d"
  by (auto simp: degrade_calls_def)

lemma tier_state_put [simp]: "tier_state (put_tier (CurrentTier st) p st) = p"
  by (simp add: tier_state_def put_tier_def)

lemma PerTier_advance: "map_of (PerTier st) t = Some p \<Longrightarrow> map_of (PerTier (advance_tier u st)) t = Some p"
  by (auto simp: advance_tier_def put_tier_def Let_def)

text \<open>What a round on the current tier does: its calls, and the record it leaves for the tier.\<close>

lemma run_act_on_tier:
  assumes "run_state (act_on_tier E st targets pods rt pm over) s = (st', s')"
  shows "\<exists>new pts. s' = s\<lparr>calls := calls s @ new\<rparr> \<and> round_calls E pm targets over new \<and>
    map_of (PerTier st') (CurrentTier st) = Some pts \<and>
    (EvictTried (tier_state st) \<longrightarrow> new = [] \<and> EvictTried pts) \<and>
    ((\<exists>ns n. EvictionCreate ns n \<in> set new) \<longrightarrow> EvictTried pts \<and> 0 < DegradeCount pts \<and>
       (0 < DegradeCount (tier_state st) \<or> newly_degraded E (calls s) pm targets new)) \<and>
    (CurrentTier st' = CurrentTier st \<or> NextHigherTier (CurrentTier st) (Tiers st) = Some (CurrentTier st'))"
proof -
  let ?t0 = "(tier_state st)\<lparr>MissingTicks := 0\<rparr>"
  obtain pts1 r1 s1 where 1: "run_state (degrade_step E ?t0 targets pm over) s = ((pts1, r1), s1)"
    by (metis prod.exhaust)
  obtain pts2 r2 s2 where 2: "run_state (evict_step E pts1 (replace_pod r1 targets) pm over) s1 = ((pts2, r2), s2)"
    by (metis prod.exhaust)
  have s': "s' = s2" and st': "\<exists>nt. st' = put_tier (CurrentTier st) pts2 st \<or>
      NextHigherTier (CurrentTier st) (Tiers st) = Some nt \<and>
      st' = advance_tier nt (put_tier (CurrentTier st) pts2 st)"
    using assms 1 2 by (auto simp: act_on_tier_def Let_def split: if_splits option.splits)
  obtain d where d: "s1 = s\<lparr>calls := calls s @ d\<rparr>"
      "d = [] \<or> 1 \<le> over \<and> \<not> EvictTried ?t0 \<and> degrade_calls pm targets d"
      "0 < DegradeCount pts1 \<longrightarrow> 0 < DegradeCount ?t0 \<or> (\<forall>e. newly_degraded E (calls s) pm targets (d @ e))"
    using run_degrade_step(1) [OF 1] by blast
  obtain e where e: "s2 = s1\<lparr>calls := calls s1 @ e\<rparr>"
      "e = [] \<and> pts2 = pts1 \<or> 10 \<le> over \<and> \<not> EvictTried pts1 \<and> 0 < DegradeCount pts1 \<and>
        evict_calls E (replace_pod r1 targets) e \<and> pts2 = pts1\<lparr>EvictTried := True\<rparr>"
    using run_evict_step [OF 2] by blast
  have tried: "EvictTried pts1 = EvictTried (tier_state st)"
    using run_degrade_step(2) [OF 1] by simp
  have ev: "e = [] \<or> 10 \<le> over \<and> evict_calls E targets e"
    using e(2) evict_calls_replace run_degrade_step(3) [OF 1] by blast
  have pts: "map_of (PerTier st') (CurrentTier st) = Some pts2"
    using st' by (auto simp: put_tier_def PerTier_advance)
  show ?thesis
  proof (intro exI conjI)
    show "s' = s\<lparr>calls := calls s @ (d @ e)\<rparr>" using s' d(1) e(1) by simp
    show "round_calls E pm targets over (d @ e)" using d(2) ev unfolding round_calls_def by blast
    show "map_of (PerTier st') (CurrentTier st) = Some pts2" by (rule pts)
    show "EvictTried (tier_state st) \<longrightarrow> d @ e = [] \<and> EvictTried pts2" using d(2) e(2) tried by auto
    show "(\<exists>ns n. EvictionCreate ns n \<in> set (d @ e)) \<longrightarrow> EvictTried pts2 \<and> 0 < DegradeCount pts2 \<and>
        (0 < DegradeCount (tier_state st) \<or> newly_degraded E (calls s) pm targets (d @ e))"
      using d(2,3) e(2) degrade_no_eviction [of pm targets d] by auto
    show "CurrentTier st' = CurrentTier st \<or> NextHigherTier (CurrentTier st) (Tiers st) = Some (CurrentTier st')"
      using st' by auto
  qed
qed

definition evict_tried :: "NodePressureState \<Rightarrow> string \<Rightarrow> bool" where
  "evict_tried st t \<longleftrightarrow> (case map_of (PerTier st) t of Some p \<Rightarrow> EvictTried p | None \<Rightarrow> False)"

definition pods_of_tier :: "rt_table \<Rightarrow> Pod list \<Rightarrow> string \<Rightarrow> Pod list" where
  "pods_of_tier rt pods t = [p \<leftarrow> pods. tier_of rt p = Some t]"

lemma evict_tried_current: "evict_tried st (CurrentTier st) = EvictTried (tier_state st)"
  by (auto simp: evict_tried_def tier_state_def new_tier_def split: option.split)

lemma evict_tried_advance:
  "t \<noteq> u \<Longrightarrow> evict_tried st t \<Longrightarrow> evict_tried (advance_tier n (put_tier u p st)) t"
  by (auto simp: evict_tried_def put_tier_def advance_tier_def Let_def split: option.splits)

definition evicts :: "call list \<Rightarrow> bool" where
  "evicts new \<longleftrightarrow> (\<exists>ns n. EvictionCreate ns n \<in> set new)"

text \<open>
  The whole of a round: some tier at or above the current one is acted on; it is the current tier
  whenever that has pods.
\<close>

definition degrade_count :: "NodePressureState \<Rightarrow> string \<Rightarrow> int" where
  "degrade_count st t = (case map_of (PerTier st) t of Some p \<Rightarrow> DegradeCount p | None \<Rightarrow> 0)"

lemma degrade_count_current: "degrade_count st (CurrentTier st) = DegradeCount (tier_state st)"
  by (auto simp: degrade_count_def tier_state_def new_tier_def split: option.split)

lemma degrade_count_advance:
  "t \<noteq> u \<Longrightarrow> degrade_count (advance_tier n (put_tier u p st)) t = degrade_count st t"
  by (auto simp: degrade_count_def put_tier_def advance_tier_def Let_def new_tier_def split: option.splits)

definition round_spec ::
    "env \<Rightarrow> call list \<Rightarrow> (string, int64) gomap \<Rightarrow> NodePressureState \<Rightarrow> Pod list \<Rightarrow> rt_table \<Rightarrow> int \<Rightarrow>
     NodePressureState \<Rightarrow> call list \<Rightarrow> string \<Rightarrow> bool" where
  "round_spec E h pm st pods rt over st' new tier \<longleftrightarrow>
     rank_of (CurrentTier st) \<le> rank_of tier \<and> rank_of tier \<le> rank_of (CurrentTier st') \<and>
     (known_tier (CurrentTier st) \<longrightarrow> known_tier tier) \<and>
     (pods_of_tier rt pods (CurrentTier st) \<noteq> [] \<longrightarrow> tier = CurrentTier st) \<and>
     round_calls E pm (pods_of_tier rt pods tier) over new \<and>
     (evict_tried st tier \<longrightarrow> new = []) \<and>
     (evicts new \<longrightarrow> evict_tried st' tier \<and> 0 < degrade_count st' tier \<and>
        (0 < degrade_count st tier \<or> newly_degraded E h pm (pods_of_tier rt pods tier) new))"

lemma round_calls_Nil [simp]: "round_calls E pm targets over []"
  by (simp add: round_calls_def)

lemma evicts_Nil [simp]: "\<not> evicts []"
  by (simp add: evicts_def)

lemma run_ProcessCurrentTier:
  "\<exists>new tier. snd (run_state (ProcessCurrentTier E st pods rt pm over) s) = s\<lparr>calls := calls s @ new\<rparr> \<and>
    round_spec E (calls s) pm st pods rt over (fst (run_state (ProcessCurrentTier E st pods rt pm over) s)) new tier"
proof (induction E st pods rt pm over rule: ProcessCurrentTier.induct)
  case (1 E st pods rt pm over)
  let ?cur = "CurrentTier st" and ?targets = "FilterPodsByCriticality pods rt (CurrentTier st)"
  have targets: "?targets = pods_of_tier rt pods ?cur"
    by (simp add: filter_tier pods_of_tier_def)
  show ?case
  proof (cases "?targets = []")
    case False
    then have eq: "ProcessCurrentTier E st pods rt pm over = act_on_tier E st ?targets pods rt pm over"
      by (subst ProcessCurrentTier.simps) (simp add: Let_def)
    obtain st' s' where run: "run_state (act_on_tier E st ?targets pods rt pm over) s = (st', s')"
      by (metis prod.exhaust)
    from run_act_on_tier [OF run] obtain new pts where r:
      "s' = s\<lparr>calls := calls s @ new\<rparr>" "round_calls E pm ?targets over new"
      "map_of (PerTier st') ?cur = Some pts" "EvictTried (tier_state st) \<longrightarrow> new = [] \<and> EvictTried pts"
      "evicts new \<longrightarrow> EvictTried pts \<and> 0 < DegradeCount pts \<and>
        (0 < DegradeCount (tier_state st) \<or> newly_degraded E (calls s) pm ?targets new)"
      "CurrentTier st' = ?cur \<or> NextHigherTier ?cur (Tiers st) = Some (CurrentTier st')"
      unfolding evicts_def by blast
    have "rank_of ?cur \<le> rank_of (CurrentTier st')"
      using r(6) NextHigherTier_Some(4) [of ?cur "Tiers st"] by auto
    then have "round_spec E (calls s) pm st pods rt over st' new ?cur"
      using r by (simp add: round_spec_def evict_tried_current degrade_count_current targets)
        (simp add: evict_tried_def degrade_count_def)
    then show ?thesis using eq run r(1) by auto
  next
    case True
    let ?pts = "(tier_state st)\<lparr>MissingTicks := wrap64 (MissingTicks (tier_state st) + 1)\<rparr>"
    let ?st1 = "put_tier ?cur ?pts st"
    show ?thesis
    proof (cases "TierMissingTolerance \<le> wrap64 (MissingTicks (tier_state st) + 1) \<and> NextHigherTier ?cur (Tiers st) \<noteq> None")
      case False
      then have "ProcessCurrentTier E st pods rt pm over = State_Monad.return ?st1"
        using True by (subst ProcessCurrentTier.simps) (auto simp: Let_def split: option.split)
      then show ?thesis
        by (intro exI [of _ "[]"] exI [of _ ?cur]) (simp add: round_spec_def)
    next
      case adv: True
      then obtain nt where nt: "NextHigherTier ?cur (Tiers st) = Some nt" by blast
      let ?st2 = "advance_tier nt ?st1"
      have eq: "ProcessCurrentTier E st pods rt pm over = ProcessCurrentTier E ?st2 pods rt pm over"
        using True adv nt by (subst ProcessCurrentTier.simps) (simp add: Let_def)
      obtain new tier where IH:
        "snd (run_state (ProcessCurrentTier E ?st2 pods rt pm over) s) = s\<lparr>calls := calls s @ new\<rparr>"
        "round_spec E (calls s) pm ?st2 pods rt over (fst (run_state (ProcessCurrentTier E ?st2 pods rt pm over) s)) new tier"
        using 1(1) [OF refl refl refl True refl refl _ nt] adv by auto
      have rank: "rank_of ?cur < rank_of nt" using nt by (rule NextHigherTier_Some)
      have "tier \<noteq> ?cur" using IH(2) rank by (auto simp: round_spec_def)
      then have "round_spec E (calls s) pm st pods rt over (fst (run_state (ProcessCurrentTier E ?st2 pods rt pm over) s)) new tier"
        using IH(2) rank evict_tried_advance [of tier ?cur st nt ?pts] degrade_count_advance [of tier ?cur nt ?pts st]
          True NextHigherTier_Some(3) [OF nt]
        unfolding round_spec_def targets by auto
      then show ?thesis using eq IH(1) by auto
    qed
  qed
qed

text \<open>Records of attempted evictions are never taken back by a round.\<close>

lemma evict_tried_put: "evict_tried (put_tier u p st) t = (if t = u then EvictTried p else evict_tried st t)"
  by (simp add: evict_tried_def put_tier_def)

lemma evict_tried_advance_mono: "evict_tried st t \<Longrightarrow> evict_tried (advance_tier n st) t"
  by (auto simp: evict_tried_def put_tier_def advance_tier_def Let_def split: option.splits)

lemma tried_degrade_step:
  assumes "run_state (degrade_step E pts targets pm over) s = ((pts', r), s')"
  shows "EvictTried pts' = EvictTried pts"
proof -
  have "EvictTried (fst (fst (run_state (degrade_step E pts targets pm over) s))) = EvictTried pts"
    by (simp add: degrade_step_def case_prod_beta' split: option.split sum.split)
  then show ?thesis using assms by simp
qed

lemma tried_evict_step:
  assumes "run_state (evict_step E pts targets pm over) s = ((pts', r), s')"
  shows "EvictTried pts \<Longrightarrow> EvictTried pts'"
proof -
  assume "EvictTried pts"
  then have "EvictTried (fst (fst (run_state (evict_step E pts targets pm over) s)))"
    by (simp add: evict_step_def)
  then show ?thesis using assms by simp
qed

lemma tried_act_on_tier:
  assumes "evict_tried st t"
  shows "evict_tried (fst (run_state (act_on_tier E st targets pods rt pm over) s)) t"
proof -
  let ?t0 = "(tier_state st)\<lparr>MissingTicks := 0\<rparr>"
  obtain pts1 r1 s1 where 1: "run_state (degrade_step E ?t0 targets pm over) s = ((pts1, r1), s1)"
    by (metis prod.exhaust)
  obtain pts2 r2 s2 where 2: "run_state (evict_step E pts1 (replace_pod r1 targets) pm over) s1 = ((pts2, r2), s2)"
    by (metis prod.exhaust)
  have "EvictTried pts2" if "t = CurrentTier st"
    using assms that tried_degrade_step [OF 1] tried_evict_step [OF 2] by (simp add: evict_tried_current)
  then have "evict_tried (put_tier (CurrentTier st) pts2 st) t"
    using assms by (simp add: evict_tried_put)
  then show ?thesis
    using 1 2 by (auto simp: act_on_tier_def Let_def evict_tried_advance_mono split: option.split)
qed

lemma tried_ProcessCurrentTier:
  "evict_tried st t \<Longrightarrow> evict_tried (fst (run_state (ProcessCurrentTier E st pods rt pm over) s)) t"
proof (induction E st pods rt pm over rule: ProcessCurrentTier.induct)
  case (1 E st pods rt pm over)
  let ?st1 = "put_tier (CurrentTier st)
    ((tier_state st)\<lparr>MissingTicks := wrap64 (MissingTicks (tier_state st) + 1)\<rparr>) st"
  have "evict_tried ?st1 t"
    using 1(2) evict_tried_current [of st] by (auto simp: evict_tried_put)
  then show ?case
    using 1(2) by (subst ProcessCurrentTier.simps)
      (auto simp: Let_def tried_act_on_tier split: option.split intro!: 1(1) evict_tried_advance_mono)
qed

text \<open>The index stays in step, and the list of tiers is not changed by a round.\<close>

lemma Tiers_act: "Tiers (fst (run_state (act_on_tier E st targets pods rt pm over) s)) = Tiers st"
  by (simp add: act_on_tier_def Let_def case_prod_beta' split: option.split)

lemma in_step_put [simp]: "in_step (put_tier u p st) = in_step st"
  by (simp add: in_step_def put_tier_def)

lemma in_step_advance:
  assumes "in_step st" and "n \<in> set (Tiers st)"
  shows "in_step (advance_tier n st)"
proof -
  obtain i where i: "index_of n (Tiers st) = Some i"
    using assms(2) index_of_None [of n "Tiers st"] by auto
  show ?thesis
    using index_of_Some [OF i] assms(2) i
    by (auto simp: in_step_def advance_tier_def put_tier_def Let_def)
qed

lemma in_step_act: "in_step st \<Longrightarrow> in_step (fst (run_state (act_on_tier E st targets pods rt pm over) s))"
  by (auto simp: act_on_tier_def Let_def case_prod_beta' split: option.split
      intro!: in_step_advance dest: NextHigherTier_Some(1))

lemma Tiers_ProcessCurrentTier:
  "Tiers (fst (run_state (ProcessCurrentTier E st pods rt pm over) s)) = Tiers st \<and>
   (in_step st \<longrightarrow> in_step (fst (run_state (ProcessCurrentTier E st pods rt pm over) s)))"
proof (induction E st pods rt pm over rule: ProcessCurrentTier.induct)
  case (1 E st pods rt pm over)
  let ?st1 = "put_tier (CurrentTier st)
    ((tier_state st)\<lparr>MissingTicks := wrap64 (MissingTicks (tier_state st) + 1)\<rparr>) st"
  have step: "in_step (advance_tier nt ?st1)"
    if "in_step st" "NextHigherTier (CurrentTier st) (Tiers st) = Some nt" for nt
    using that NextHigherTier_Some(1) by (intro in_step_advance) simp_all
  show ?case
    by (subst (1 2) ProcessCurrentTier.simps)
      (auto simp: Let_def 1 Tiers_act in_step_act step split: option.split)
qed

section \<open>The handler's effect\<close>

text \<open>A node's pressure state between two runs of the handler.\<close>

definition pressure_ok :: "NodePressureState \<Rightarrow> bool" where
  "pressure_ok st \<longleftrightarrow> tiers_ok (Tiers st) \<and> in_step st"

lemma current_known:
  assumes "pressure_ok st" and "Tiers st \<noteq> []"
  shows "known_tier (CurrentTier st)" and "ensure_current st = st"
proof -
  have i: "0 \<le> CurrentTierIdx st" "CurrentTierIdx st < int (length (Tiers st))"
    "Tiers st ! nat (CurrentTierIdx st) = CurrentTier st"
    using assms by (simp_all add: pressure_ok_def in_step_def)
  then have "CurrentTier st \<in> set (Tiers st)" by (metis nat_less_iff nth_mem)
  then show k: "known_tier (CurrentTier st)" using assms by (auto simp: pressure_ok_def tiers_ok_def)
  show "ensure_current st = st" using i k by (auto simp: ensure_current_def known_tier_iff)
qed

definition node_tried :: "sys \<Rightarrow> string \<Rightarrow> string \<Rightarrow> bool" where
  "node_tried s n t \<longleftrightarrow> (case map_of (PressureState s) n of Some st \<Rightarrow> evict_tried st t | None \<Rightarrow> False)"

definition untried :: "sys \<Rightarrow> string \<Rightarrow> nat" where
  "untried s n = length [t \<leftarrow> all_tiers. \<not> node_tried s n t]"

definition evictions :: "call list \<Rightarrow> nat" where
  "evictions cs = length [c \<leftarrow> cs. case c of EvictionCreate _ _ \<Rightarrow> True | _ \<Rightarrow> False]"

lemma evictions_simps [simp]:
  "evictions [] = 0" "evictions (EvictionCreate a b # cs) = Suc (evictions cs)"
  "evictions (cs @ ds) = evictions cs + evictions ds" "evictions (RangeMap # cs) = evictions cs"
  "evictions (GetNode a # cs) = evictions cs" "evictions (ListRealtime a # cs) = evictions cs"
  "evictions (ListPods x # cs) = evictions cs" "evictions (UpdatePod q # cs) = evictions cs"
  "evictions (ResizePatch a b j # cs) = evictions cs"
  by (simp_all add: evictions_def)

lemma evictions_round: "round_calls E pm targets over new \<Longrightarrow> evictions new \<le> (if evicts new then 1 else 0)"
  by (auto simp: round_calls_def degrade_calls_def evict_calls_def evicts_def)

lemma untried_mono:
  assumes "\<And>t. node_tried s n t \<Longrightarrow> node_tried s' n t"
  shows "untried s' n \<le> untried s n"
    and "known_tier t \<Longrightarrow> \<not> node_tried s n t \<Longrightarrow> node_tried s' n t \<Longrightarrow> untried s' n < untried s n"
proof -
  let ?u = "[t \<leftarrow> all_tiers. \<not> node_tried s n t]"
  have eq: "[t \<leftarrow> all_tiers. \<not> node_tried s' n t] = [t \<leftarrow> ?u. \<not> node_tried s' n t]"
    unfolding filter_filter by (rule filter_cong) (use assms in auto)
  then show "untried s' n \<le> untried s n" by (simp only: untried_def length_filter_le)
  assume "known_tier t" "\<not> node_tried s n t" "node_tried s' n t"
  then have "t \<in> set ?u" "\<not> \<not> node_tried s' n t" by (simp_all add: all_tiers_set)
  then show "untried s' n < untried s n"
    unfolding untried_def eq by (rule length_filter_less)
qed

lemma run_pressure_round:
  assumes "env_orders E"
    and "s' = snd (run_state (pressure_round E n pods rt pm over) s)"
  shows "\<exists>new st'. s' = s\<lparr>calls := calls s @ RangeMap # new, PressureState := gm_put n st' (PressureState s)\<rparr> \<and>
    pressure_ok st' \<and> evictions new + untried s' n \<le> untried s n \<and> (over < 10 \<longrightarrow> evictions new = 0)"
proof -
  define st0 where "st0 = (case map_of (PressureState s) n of Some st \<Rightarrow> st | None \<Rightarrow> new_pressure)"
  define st1 where "st1 = ReindexCurrentTier
    (st0\<lparr>Tiers := CollectSortedTiers (on_range_tiers E (calls s)) pods rt, AboveSec := over\<rparr>)"
  let ?s1 = "s\<lparr>calls := calls s @ [RangeMap]\<rparr>"
  have per: "PerTier st1 = PerTier st0" by (auto simp: st1_def ReindexCurrentTier_def split: option.split)
  have ok1: "pressure_ok st1"
    using tiers_ok_collect [of "on_range_tiers E (calls s)" pods rt] assms(1)
    by (auto simp: pressure_ok_def st1_def in_step_reindex env_orders_def)
      (auto simp: ReindexCurrentTier_def split: option.split)
  have tried0: "node_tried s n t = evict_tried st1 t" for t
    by (auto simp: node_tried_def evict_tried_def per st0_def new_pressure_def split: option.split)
  have s': "s' = (if Tiers st1 = [] then ?s1\<lparr>PressureState := gm_put n st1 (PressureState s)\<rparr>
      else let r = run_state (ProcessCurrentTier E st1 pods rt pm over) ?s1 in
        (snd r)\<lparr>PressureState := gm_put n (fst r) (PressureState (snd r))\<rparr>)"
    using current_known(2) [OF ok1] assms(2)
    by (simp add: pressure_round_def range_over_def put_pressure_def Let_def st0_def [symmetric]
        st1_def [symmetric] case_prod_beta')
  show ?thesis
  proof (cases "Tiers st1 = []")
    case True
    then have "s' = s\<lparr>calls := calls s @ RangeMap # [], PressureState := gm_put n st1 (PressureState s)\<rparr>"
      using s' by simp
    moreover have "untried s' n \<le> untried s n"
      by (rule untried_mono(1)) (use calculation tried0 in \<open>simp add: node_tried_def\<close>)
    ultimately show ?thesis using ok1 by fastforce
  next
    case False
    define st' where "st' = fst (run_state (ProcessCurrentTier E st1 pods rt pm over) ?s1)"
    obtain new tier where r:
      "snd (run_state (ProcessCurrentTier E st1 pods rt pm over) ?s1) = ?s1\<lparr>calls := calls ?s1 @ new\<rparr>"
      "round_spec E (calls ?s1) pm st1 pods rt over st' new tier"
      using run_ProcessCurrentTier unfolding st'_def by blast
    have eq: "s' = s\<lparr>calls := calls s @ RangeMap # new, PressureState := gm_put n st' (PressureState s)\<rparr>"
      using s' False r(1) by (simp add: st'_def Let_def)
    have tried': "node_tried s' n t = evict_tried st' t" for t by (simp add: eq node_tried_def)
    have mono: "node_tried s n t \<Longrightarrow> node_tried s' n t" for t
      unfolding tried0 tried' st'_def by (rule tried_ProcessCurrentTier)
    have ok': "pressure_ok st'"
      using ok1 Tiers_ProcessCurrentTier [of E st1 pods rt pm over ?s1]
      by (simp add: pressure_ok_def st'_def)
    have "evictions new + untried s' n \<le> untried s n"
    proof (cases "evicts new")
      case True
      then have "known_tier tier" "\<not> node_tried s n tier" "node_tried s' n tier"
        using r(2) current_known(1) [OF ok1 False] unfolding tried0 tried' by (auto simp: round_spec_def)
      then have "untried s' n < untried s n" using untried_mono(2) [of s n s' tier] mono by blast
      then show ?thesis using evictions_round r(2) True by (fastforce simp: round_spec_def)
    next
      case False
      then show ?thesis using evictions_round r(2) untried_mono(1) [of s n s'] mono
        by (fastforce simp: round_spec_def)
    qed
    moreover have "over < 10 \<longrightarrow> evictions new = 0"
      using r(2) by (auto simp: round_spec_def round_calls_def degrade_calls_def)
    ultimately show ?thesis using eq ok' by blast
  qed
qed

text \<open>The seconds above 90 percent, as the node's annotations give them.\<close>

definition node_over :: "env \<Rightarrow> call list \<Rightarrow> string \<Rightarrow> int" where
  "node_over E h n = (case on_get_node E h n of
     Inl _ \<Rightarrow> 0 | Inr node \<Rightarrow> over_seconds (trim_space (gm_str (node_Annotations node) AnnDurKey)))"

lemma reads_pressure_inputs: "only_reads.keeps (pressure_inputs E n)"
  unfolding pressure_inputs_def Let_def
  by (intro only_reads.keeps_bind reads_calls)
    (auto split: sum.split intro!: only_reads.keeps_bind only_reads.keeps_return reads_calls reads_collect)

text \<open>A frame that is free in the pressure states is kept by the whole handler.\<close>

context call_frame
begin

lemma keeps_handle:
  assumes "\<And>s p. R s (s\<lparr>PressureState := p\<rparr>)"
  shows "keeps (HandleNodeCPUPressure E n)"
proof -
  have "keeps (pressure_round E n pods rt pm over)" for pods rt pm over
    unfolding pressure_round_def Let_def put_pressure_def
    by (auto intro!: keeps_bind keeps_get keeps_calls keeps_round keeps_update assms)
  then show ?thesis
    unfolding HandleNodeCPUPressure_def
    by (auto split: option.split prod.split
        intro!: keeps_bind keeps_return keeps_only_reads [OF reads_pressure_inputs])
qed

end

lemma pressure_inputs_result:
  "\<forall>pods rt pm over. fst (run_state (pressure_inputs E n) s) = Some (pods, rt, pm, over) \<longrightarrow>
     over = node_over E (calls s) n \<and> pods \<noteq> [] \<and> (\<forall>p \<in> set pods. NodeName p = n)"
  by (simp add: pressure_inputs_def call_defs Let_def node_over_def GetRealTimeData_def
      ListPodMilliCPUByNode_def filter_empty_conv split: sum.split)

lemma evictions_reads: "list_all is_read new \<Longrightarrow> evictions new = 0"
  by (induction new) (auto simp: evictions_def is_read_def split: call.splits)

definition pressures_ok :: "sys \<Rightarrow> bool" where
  "pressures_ok s \<longleftrightarrow> (\<forall>n st. map_of (PressureState s) n = Some st \<longrightarrow> pressure_ok st)"

lemma handler_effect:
  assumes "env_orders E"
    and "s' = snd (run_state (HandleNodeCPUPressure E n) s)"
  shows "\<exists>new p. s' = s\<lparr>calls := calls s @ new, PressureState := p\<rparr> \<and>
    (\<forall>m. m \<noteq> n \<longrightarrow> map_of p m = map_of (PressureState s) m) \<and>
    (pressures_ok s \<longrightarrow> pressures_ok s') \<and>
    evictions new + untried s' n \<le> untried s n \<and>
    (node_over E (calls s) n < 10 \<longrightarrow> evictions new = 0)"
proof -
  obtain i s1 where i: "run_state (pressure_inputs E n) s = (i, s1)" by (metis prod.exhaust)
  obtain reads where reads: "s1 = s\<lparr>calls := calls s @ reads\<rparr>" "list_all is_read reads"
    using only_readsD [OF reads_pressure_inputs i] by blast
  have u: "untried s1 n = untried s n" by (simp add: untried_def node_tried_def reads)
  show ?thesis
  proof (cases i)
    case None
    then have "s' = s1" using assms(2) i by (simp add: HandleNodeCPUPressure_def)
    then have s': "s' = s\<lparr>calls := calls s @ reads, PressureState := PressureState s\<rparr>" using reads by simp
    show ?thesis
      by (rule exI [of _ reads], rule exI [of _ "PressureState s"])
        (use s' u evictions_reads [OF reads(2)] in \<open>simp add: pressures_ok_def untried_def node_tried_def\<close>)
  next
    case (Some x)
    obtain pods rt pm over where x: "x = (pods, rt, pm, over)" by (metis prod_cases4)
    have over: "over = node_over E (calls s) n"
      using pressure_inputs_result [of E n s] i Some x by simp
    have r: "s' = snd (run_state (pressure_round E n pods rt pm over) s1)"
      using assms(2) i Some x by (simp add: HandleNodeCPUPressure_def)
    from run_pressure_round [OF assms(1) r] obtain new st' where
      n: "s' = s1\<lparr>calls := calls s1 @ RangeMap # new, PressureState := gm_put n st' (PressureState s1)\<rparr>"
      "pressure_ok st'" "evictions new + untried s' n \<le> untried s1 n" "over < 10 \<longrightarrow> evictions new = 0"
      by blast
    have s': "s' = s\<lparr>calls := calls s @ (reads @ RangeMap # new), PressureState := gm_put n st' (PressureState s)\<rparr>"
      using n(1) reads(1) by simp
    show ?thesis
      by (rule exI [of _ "reads @ RangeMap # new"], rule exI [of _ "gm_put n st' (PressureState s)"])
        (use s' n(2-) u over evictions_reads [OF reads(2)] in \<open>auto simp: pressures_ok_def\<close>)
  qed
qed

lemma untried_le: "untried s n \<le> 3"
  unfolding untried_def by (rule order_trans [OF length_filter_le]) (simp add: all_tiers_def)

lemma untried_other:
  "map_of (PressureState s') m = map_of (PressureState s) m \<Longrightarrow> untried s' m = untried s m"
  by (simp add: untried_def node_tried_def)


text \<open>
  Any sequence of runs, on any nodes. The evictions of a node are those its own runs request, and they
  are paid for by the tiers of the node that had none tried before.
\<close>

primrec evictions_of :: "env \<Rightarrow> string \<Rightarrow> string list \<Rightarrow> sys \<Rightarrow> nat" where
  "evictions_of E n [] s = 0"
| "evictions_of E n (m # ms) s =
     (let s' = snd (run_state (HandleNodeCPUPressure E m) s) in
      (if m = n then evictions (new_calls s s') else 0) + evictions_of E n ms s')"

lemma run_frame:
  assumes "env_orders E" and "s' = snd (run_state (HandleNodeCPUPressure E m) s)"
  obtains new p where "s' = s\<lparr>calls := calls s @ new, PressureState := p\<rparr>" and "new_calls s s' = new"
    and "pressures_ok s \<longrightarrow> pressures_ok s'"
    and "(if m = n then evictions new else 0) + untried s' n \<le> untried s n"
proof -
  from handler_effect [OF assms] obtain new p where
    n: "s' = s\<lparr>calls := calls s @ new, PressureState := p\<rparr>"
    "\<forall>k. k \<noteq> m \<longrightarrow> map_of p k = map_of (PressureState s) k" "pressures_ok s \<longrightarrow> pressures_ok s'"
    "evictions new + untried s' m \<le> untried s m"
    by blast
  have "(if m = n then evictions new else 0) + untried s' n \<le> untried s n"
  proof (cases "m = n")
    case False
    then have "untried s' n = untried s n" using n(1,2) by (intro untried_other) simp
    then show ?thesis using False by simp
  qed (use n(4) in simp)
  then show ?thesis using that [where new = new and p = p] n(1,3) by simp
qed

lemma evictions_of_bound:
  assumes "env_orders E"
  shows "evictions_of E n ns s + untried (snd (run_state (for_each (HandleNodeCPUPressure E) ns) s)) n \<le> untried s n"
proof (induction ns arbitrary: s)
  case (Cons m ms)
  define s1 where "s1 = snd (run_state (HandleNodeCPUPressure E m) s)"
  have eqs: "evictions_of E n (m # ms) s = (if m = n then evictions (new_calls s s1) else 0) + evictions_of E n ms s1"
    "snd (run_state (for_each (HandleNodeCPUPressure E) (m # ms)) s) =
     snd (run_state (for_each (HandleNodeCPUPressure E) ms) s1)"
    by (simp_all add: Let_def case_prod_beta' s1_def)
  obtain new where "new_calls s s1 = new" "(if m = n then evictions new else 0) + untried s1 n \<le> untried s n"
    using run_frame [OF assms s1_def] by metis
  then show ?case unfolding eqs using Cons.IH [of s1] by (cases "m = n") simp_all
qed simp

lemma evictions_split:
  assumes "env_orders E" and "finite N" and "set ns \<subseteq> N"
    and "s' = snd (run_state (for_each (HandleNodeCPUPressure E) ns) s)"
  shows "\<exists>new p. s' = s\<lparr>calls := calls s @ new, PressureState := p\<rparr> \<and>
    evictions new = (\<Sum>n \<in> N. evictions_of E n ns s)"
  using assms(3,4)
proof (induction ns arbitrary: s)
  case Nil
  have "s = s\<lparr>calls := calls s @ [], PressureState := PressureState s\<rparr>" by simp
  then show ?case using Nil
    by (intro exI [of _ "[]"] exI [of _ "PressureState s"]) simp
next
  case (Cons m ms)
  define s1 where "s1 = snd (run_state (HandleNodeCPUPressure E m) s)"
  obtain a p where a: "s1 = s\<lparr>calls := calls s @ a, PressureState := p\<rparr>" "new_calls s s1 = a"
    using run_frame [OF assms(1) s1_def] by metis
  have "s' = snd (run_state (for_each (HandleNodeCPUPressure E) ms) s1)"
    using Cons.prems(2) by (simp add: case_prod_beta' s1_def)
  from Cons.IH [OF _ this] Cons.prems(1) obtain b q where
    b: "s' = s1\<lparr>calls := calls s1 @ b, PressureState := q\<rparr>"
    "evictions b = (\<Sum>n \<in> N. evictions_of E n ms s1)"
    by auto
  have "(\<Sum>n \<in> N. evictions_of E n (m # ms) s) =
      (\<Sum>n \<in> N. if m = n then evictions a else 0) + (\<Sum>n \<in> N. evictions_of E n ms s1)"
    by (simp only: evictions_of.simps Let_def s1_def [symmetric] a(2) sum.distrib)
  also have "(\<Sum>n \<in> N. if m = n then evictions a else 0) = evictions a"
    using Cons.prems(1) assms(2) by (simp add: sum.delta)
  finally have "evictions (a @ b) = (\<Sum>n \<in> N. evictions_of E n (m # ms) s)" using b(2) by simp
  moreover have "s' = s\<lparr>calls := calls s @ (a @ b), PressureState := q\<rparr>"
    by (subst b(1), subst a(1)) (simp add: a(1))
  ultimately show ?case by blast
qed

section \<open>A loaded node\<close>

lemma demo_identity: "writes_keep_identity demo_env"
  by (simp add: writes_keep_identity_def demo_env_def)

text \<open>A node that has been above 90 percent for 12 seconds, with one pod, of criticality \<open>"Low"\<close>.\<close>

definition pressed_env :: env where
  "pressed_env = demo_rt_env\<lparr>
     on_get_node := \<lambda>_ _. Inr \<lparr>node_Name = ''worker'',
       node_Annotations = [(AnnUsageKey, ''95''), (AnnDurKey, ''12'')], node_Taints = [], node_Addresses = []\<rparr>,
     on_list_realtime := \<lambda>_ _. Inr [JStr ''app''], on_list_pods := \<lambda>_ _. Inr [demo_rt_pod]\<rparr>"

definition demo_pressure :: NodePressureState where
  "demo_pressure = new_pressure\<lparr>Tiers := [''Low''], CurrentTier := ''Low'', AboveSec := 12\<rparr>"

lemma pressed_simps:
  "on_resize pressed_env h p j = Inr p" "on_update_pod pressed_env h p = Inr p"
  "on_evict pressed_env h a b = None" "on_range_tiers pressed_env h = (\<lambda>xs. xs)"
  by (simp_all add: pressed_env_def demo_rt_env_def demo_env_def)

lemma env_orders_pressed: "env_orders pressed_env"
  using env_orders_demo by (simp add: env_orders_def pressed_env_def demo_rt_env_def)

lemma demo_pod_resizable: "degrade_patches degradeRatio demo_rt_pod \<noteq> []"
proof -
  have "\<exists>c \<in> set (Containers demo_rt_pod). container_milli c \<noteq> 0" by code_simp
  then show ?thesis by (simp add: degrade_patches_Nil)
qed

lemma demo_round:
  "snd (run_state (ProcessCurrentTier pressed_env demo_pressure [demo_rt_pod]
       [(''app'', demo_rt ''Low'')] [(''p'', 500)] 12) s) =
   s\<lparr>calls := calls s @ [ResizePatch ''default'' ''p'' (degrade_body demo_rt_pod),
      UpdatePod (demo_rt_pod\<lparr>pod_Labels := gm_put ''evicted'' ''true'' (pod_Labels demo_rt_pod)\<rparr>),
      EvictionCreate ''default'' ''p'']\<rparr>"
proof -
  have targets: "FilterPodsByCriticality [demo_rt_pod] [(''app'', demo_rt ''Low'')] ''Low'' = [demo_rt_pod]" by code_simp
  have pick: "PickHighestCPUFromMilli [demo_rt_pod] [(''p'', 500)] = Some demo_rt_pod" by code_simp
  have milli: "MinMilli < current_milli [(''p'', 500)] demo_rt_pod" by code_simp
  have names: "pod_Name demo_rt_pod = ''p''" "pod_Namespace demo_rt_pod = ''default''" by (simp_all add: demo_rt_pod_def)
  have tier: "CurrentTier demo_pressure = ''Low''" "tier_state demo_pressure = new_tier"
    by (simp_all add: demo_pressure_def tier_state_def new_pressure_def)
  have w: "wrap64 1 = 1" by (simp add: wrap64_id)
  show ?thesis
    by (subst ProcessCurrentTier.simps)
      (simp add: Let_def tier targets act_on_tier_def degrade_step_def evict_step_def pick milli run_degrade
        demo_pod_resizable pressed_simps new_tier_def replace_pod_def EvictPod_def call_defs names w
        del: FilterPodsByCriticality.simps)
qed

lemma pressed_inputs:
  "fst (run_state (pressure_inputs pressed_env ''worker'') s) =
   Some ([demo_rt_pod], [(''app'', demo_rt ''Low'')], [(''p'', 500)], 12)"
proof -
  have trim: "trim_space ''95'' = ''95''" "trim_space ''12'' = ''12''" by code_simp+
  have float: "parse_float_ok ''95''"
    by (simp add: parse_float_ok_def is_special_float_def drop_sign_def is_sign_def scan_exponent_def
        is_digit_def f64_overflows_def digit_val_def lower_def)
  have over: "over_seconds ''12'' = 12" by code_simp
  have milli: "pod_milli demo_rt_pod = 500" by code_simp
  have node: "NodeName demo_rt_pod = ''worker''" "pod_Name demo_rt_pod = ''p''" by (simp_all add: demo_rt_pod_def)
  show ?thesis
    by (simp add: pressure_inputs_def call_defs Let_def pressed_env_def gm_str_def AnnUsageKey_def AnnDurKey_def
        trim float over GetRealTimeData_def ListPodMilliCPUByNode_def milli node)
      (simp add: demo_rt_env_def demo_rt_def bad_field_def ListPodMilliCPUByNode_def call_defs milli node trim over)
qed

text \<open>
  A pod at the floor of 10 millicores that is the largest of its tier is evicted after ten seconds
  without any resize before: the code sets the counter to 999 instead of counting a degradation.
\<close>

lemma floor_pod_evicted:
  assumes "PickHighestCPUFromMilli (pods_of_tier rt pods (CurrentTier st)) pm = Some p"
    and "current_milli pm p \<le> MinMilli" and "10 \<le> over"
    and "degrade_count st (CurrentTier st) = 0" and "\<not> evict_tried st (CurrentTier st)"
  shows "\<exists>d. snd (run_state (ProcessCurrentTier E st pods rt pm over) s) = s\<lparr>calls := calls s @ d\<rparr> \<and>
    evict_calls E (pods_of_tier rt pods (CurrentTier st)) d"
proof -
  let ?targets = "pods_of_tier rt pods (CurrentTier st)"
  have p: "p \<in> set ?targets" using assms(1) by (rule pick_Some)
  obtain e p' s' where ev: "run_state (EvictPod E p) s = ((e, p'), s')" by (metis prod.exhaust)
  have "FilterPodsByCriticality pods rt (CurrentTier st) = ?targets"
    by (simp add: filter_tier pods_of_tier_def)
  moreover have "?targets \<noteq> []" using p by auto
  ultimately have eq: "ProcessCurrentTier E st pods rt pm over = act_on_tier E st ?targets pods rt pm over"
    by (subst ProcessCurrentTier.simps) (simp add: Let_def)
  have "snd (run_state (act_on_tier E st ?targets pods rt pm over) s) = s'"
    using assms ev
    by (simp add: act_on_tier_def degrade_step_def evict_step_def replace_pod_def Let_def case_prod_beta'
        evict_tried_current degrade_count_current)
  then show ?thesis unfolding eq using run_EvictPod [OF ev p] by blast
qed

section \<open>Properties\<close>

text \<open>
  C6: one round of \<open>ProcessCurrentTier\<close> acts on one tier at or above the current one, and on the
  current tier itself whenever that has pods. It changes nothing but the history of calls, which
  grows by at most one resize, of the largest pod of that tier and only after a second of overload,
  followed by at most one labelled eviction, only after ten seconds; the evicted pod is one of that
  tier if the API server's answers keep name and namespace. A tier whose eviction was tried is left
  alone. An eviction is recorded, and it comes only if the tier's counter of degradations was
  positive before, or in this round the largest pod's resize was accepted, or that pod has nothing
  to resize or is at or below the floor: then nothing was degraded, contrary to the comment on the
  function.
\<close>

theorem ProcessCurrentTier_round:
  "\<exists>new tier. let st' = fst (run_state (ProcessCurrentTier E st pods rt pm over) s);
      targets = pods_of_tier rt pods tier in
    snd (run_state (ProcessCurrentTier E st pods rt pm over) s) = s\<lparr>calls := calls s @ new\<rparr> \<and>
    rank_of (CurrentTier st) \<le> rank_of tier \<and> rank_of tier \<le> rank_of (CurrentTier st') \<and>
    (pods_of_tier rt pods (CurrentTier st) \<noteq> [] \<longrightarrow> tier = CurrentTier st) \<and>
    round_calls E pm targets over new \<and>
    (evict_tried st tier \<longrightarrow> new = []) \<and>
    (evicts new \<longrightarrow> evict_tried st' tier \<and> 0 < degrade_count st' tier \<and>
       (0 < degrade_count st tier \<or> newly_degraded E (calls s) pm targets new))"
proof -
  let ?r = "run_state (ProcessCurrentTier E st pods rt pm over) s"
  obtain new tier where r: "snd ?r = s\<lparr>calls := calls s @ new\<rparr>"
    "round_spec E (calls s) pm st pods rt over (fst ?r) new tier"
    using run_ProcessCurrentTier by blast
  show ?thesis
    unfolding Let_def r(1) using r(2) [unfolded round_spec_def]
    by (intro exI [of _ new] exI [of _ tier]) simp
qed

theorem ProcessCurrentTier_round_witness:
  "\<exists>new. snd (run_state (ProcessCurrentTier pressed_env demo_pressure [demo_rt_pod]
       [(''app'', demo_rt ''Low'')] [(''p'', 500)] 12) demo_sys) = demo_sys\<lparr>calls := new\<rparr> \<and>
     evicts new \<and> newly_degraded pressed_env [] [(''p'', 500)] [demo_rt_pod] new"
proof -
  let ?run = "run_state (ProcessCurrentTier pressed_env demo_pressure [demo_rt_pod]
      [(''app'', demo_rt ''Low'')] [(''p'', 500)] 12) demo_sys"
  have targets: "pods_of_tier [(''app'', demo_rt ''Low'')] [demo_rt_pod] ''Low'' = [demo_rt_pod]"
    by (simp add: pods_of_tier_def tier_of_def demo_rt_def demo_rt_pod_def gm_str_def rt_label_def)
  have st: "CurrentTier demo_pressure = ''Low''" "degrade_count demo_pressure ''Low'' = 0" "calls demo_sys = []"
    by (simp_all add: demo_pressure_def degrade_count_def new_pressure_def demo_sys_def)
  obtain new where r: "snd ?run = demo_sys\<lparr>calls := calls demo_sys @ new\<rparr>"
    "evicts new \<longrightarrow> newly_degraded pressed_env [] [(''p'', 500)] [demo_rt_pod] new"
    using ProcessCurrentTier_round [of pressed_env demo_pressure "[demo_rt_pod]"
        "[(''app'', demo_rt ''Low'')]" "[(''p'', 500)]" 12 demo_sys]
    by (auto simp: Let_def targets st)
  have "evicts new"
    using r(1) unfolding demo_round by (auto simp: st(3) evicts_def dest!: arg_cong [of _ _ calls])
  then show ?thesis using r st(3) by auto
qed

text \<open>
  C7: however often and on whatever nodes pressure is handled (with no recovery of a node in between),
  the evictions requested for a node are at most as many as it has criticality tiers without an
  attempted eviction, so at most three; each is accounted to a run for that node, and together they
  are at most three times the number of nodes. A range over a map visits every entry once.
\<close>

theorem pressure_evictions_bounded:
  assumes "env_orders E"
  shows "let s' = snd (run_state (for_each (HandleNodeCPUPressure E) ns) s) in
    (\<forall>n. evictions_of E n ns s + untried s' n \<le> untried s n \<and> untried s n \<le> 3) \<and>
    evictions (new_calls s s') = (\<Sum>n \<in> set ns. evictions_of E n ns s) \<and>
    evictions (new_calls s s') \<le> 3 * card (set ns)"
proof -
  let ?s' = "snd (run_state (for_each (HandleNodeCPUPressure E) ns) s)"
  have node: "evictions_of E n ns s + untried ?s' n \<le> untried s n \<and> untried s n \<le> 3" for n
    using evictions_of_bound [OF assms] untried_le by blast
  obtain new p where n: "?s' = s\<lparr>calls := calls s @ new, PressureState := p\<rparr>"
    "evictions new = (\<Sum>n \<in> set ns. evictions_of E n ns s)"
    using evictions_split [OF assms finite_set subset_refl refl] by blast
  have "calls ?s' = calls s @ new" by (subst n(1)) simp
  then have "evictions (new_calls s ?s') = (\<Sum>n \<in> set ns. evictions_of E n ns s)" using n(2) by simp
  moreover have "evictions_of E n ns s \<le> 3" for n using node [of n] by linarith
  then have "(\<Sum>n \<in> set ns. evictions_of E n ns s) \<le> (\<Sum>n \<in> set ns. 3)" by (intro sum_mono) simp
  ultimately show ?thesis unfolding Let_def using node by (simp add: mult.commute)
qed

lemma demo_handler:
  "evictions (new_calls demo_sys (snd (run_state (HandleNodeCPUPressure pressed_env ''worker'') demo_sys))) = 1"
proof -
  obtain s1 where i: "run_state (pressure_inputs pressed_env ''worker'') demo_sys =
      (Some ([demo_rt_pod], [(''app'', demo_rt ''Low'')], [(''p'', 500)], 12), s1)"
    using pressed_inputs by (metis prod.collapse)
  obtain reads where reads: "s1 = demo_sys\<lparr>calls := calls demo_sys @ reads\<rparr>" "list_all is_read reads"
    using only_readsD [OF reads_pressure_inputs i] by blast
  have tiers: "CollectSortedTiers (\<lambda>xs. xs) [demo_rt_pod] [(''app'', demo_rt ''Low'')] = [''Low'']" by code_simp
  have st: "ReindexCurrentTier (new_pressure\<lparr>Tiers := [''Low''], AboveSec := 12\<rparr>) = demo_pressure"
    "Tiers demo_pressure \<noteq> []" "ensure_current demo_pressure = demo_pressure"
    by (simp_all add: ReindexCurrentTier_def demo_pressure_def new_pressure_def ensure_current_def)
  have none: "map_of (PressureState demo_sys) ''worker'' = None" "calls demo_sys = []" by (simp_all add: demo_sys_def)
  have "calls (snd (run_state (HandleNodeCPUPressure pressed_env ''worker'') demo_sys)) =
      reads @ [RangeMap, ResizePatch ''default'' ''p'' (degrade_body demo_rt_pod),
        UpdatePod (demo_rt_pod\<lparr>pod_Labels := gm_put ''evicted'' ''true'' (pod_Labels demo_rt_pod)\<rparr>),
        EvictionCreate ''default'' ''p'']"
    by (simp add: HandleNodeCPUPressure_def i pressure_round_def reads(1) range_over_def none pressed_simps tiers
        Let_def st put_pressure_def case_prod_beta' demo_round)
  then show ?thesis by (simp add: new_calls_def none evictions_reads [OF reads(2)])
qed

theorem pressure_evictions_bounded_witness:
  "let n = evictions_of pressed_env ''worker'' [''worker'', ''worker''] demo_sys in 1 \<le> n \<and> n \<le> 3"
proof -
  have "1 \<le> evictions_of pressed_env ''worker'' [''worker'', ''worker''] demo_sys"
    using demo_handler by (simp add: Let_def)
  moreover have "evictions_of pressed_env ''worker'' [''worker'', ''worker''] demo_sys \<le> 3"
    using pressure_evictions_bounded [OF env_orders_pressed, of "[''worker'', ''worker'']" demo_sys]
    unfolding Let_def by (meson add_leD1 order_trans)
  ultimately show ?thesis by (simp only: Let_def)
qed

end
