(* ===== verification/Runtime_State.thy ===== *)
theory Runtime_State
  imports Data_Collector RT_Load
begin

text \<open>
  The runtime state of pods, \<open>"low"\<close> or \<open>"hi"\<close>, in \<open>internal/controller/mckube_controller.go\<close>: its
  initialisation, the escalation of a pod that overran its budget, the recovery of a node's pods, the
  settings applied to the containers of a pod, and the cleanup of a deleted pod.
\<close>

section \<open>Initialisation and cleanup\<close>

definition runtime_state :: "sys \<Rightarrow> string \<Rightarrow> string" where
  "runtime_state s podName = gm_str (podRuntimeState s) podName"

definition ensurePodRuntimeStateInitialized :: "string \<Rightarrow> unit act" where
  "ensurePodRuntimeStateInitialized podName = State_Monad.update (\<lambda>s.
     if map_of (podRuntimeState s) podName = None
     then s\<lparr>podRuntimeState := gm_put podName ''low'' (podRuntimeState s)\<rparr> else s)"

definition cleanupPodState :: "string \<Rightarrow> unit act" where
  "cleanupPodState podName = State_Monad.update (\<lambda>s.
     s\<lparr>podRuntimeState := gm_del podName (podRuntimeState s),
       cpuPools := clean_pools podName (cpuPools s)\<rparr>)"

section \<open>Finding the pod of a container\<close>

record OverrunData =
  od_NodeName :: string
  od_ContainerID :: string
  od_Timestamp :: int

definition normalize_id :: "string \<Rightarrow> string" where
  "normalize_id s = (case str_index s ''://'' of Some idx \<Rightarrow> drop (idx + 3) s | None \<Rightarrow> s)"

definition id_matches :: "string \<Rightarrow> ContainerStatus \<Rightarrow> bool" where
  "id_matches containerID cs \<longleftrightarrow>
     cs_ContainerID cs = containerID \<or>
     normalize_id (cs_ContainerID cs) = normalize_id containerID \<or>
     str_contains (cs_ContainerID cs) (normalize_id containerID)"

definition pod_has_container :: "string \<Rightarrow> string \<Rightarrow> Pod \<Rightarrow> bool" where
  "pod_has_container nodeName containerID pod \<longleftrightarrow>
     \<not> (nodeName \<noteq> '''' \<and> NodeName pod \<noteq> nodeName) \<and>
     ((\<exists>cs \<in> set (ContainerStatuses pod). id_matches containerID cs) \<or>
      (\<exists>cs \<in> set (InitContainerStatuses pod). id_matches containerID cs))"

definition findPodByContainerID :: "env \<Rightarrow> string \<Rightarrow> string \<Rightarrow> (go_error + Pod option) act" where
  "findPodByContainerID E nodeName containerID = do {
     r \<leftarrow> list_pods E None;
     State_Monad.return (case r of
       Inl e \<Rightarrow> Inl (ListPodsFailed e)
     | Inr items \<Rightarrow> Inr (find (pod_has_container nodeName containerID) items))
   }"

section \<open>Escalation on an overrun\<close>

text \<open>
  The branch that only logs the pod's real-time data makes its call all the same. The status update
  is sent with the new state whatever the server answers.
\<close>

definition log_realtime :: "env \<Rightarrow> Pod \<Rightarrow> unit act" where
  "log_realtime E pod =
     (if map_of (pod_Labels pod) rt_label = None then State_Monad.return ()
      else do { _ \<leftarrow> GetRealTimeData E; State_Monad.return () })"

definition escalate :: "env \<Rightarrow> string \<Rightarrow> Pod \<Rightarrow> McKube \<Rightarrow> RTSettings \<Rightarrow> unit act" where
  "escalate E containerID pod mk rts = do {
     s \<leftarrow> State_Monad.get;
     if runtime_state s (pod_Name pod) = ''hi'' then State_Monad.return ()
     else if HostIP pod = '''' then State_Monad.return ()
     else do {
       e \<leftarrow> SendRTRequest E (HostIP pod)
         \<lparr>req_ContainerID = containerID, req_Period = Period rts, req_Runtime = RuntimeHi rts, req_Core = Core rts\<rparr>;
       case e of Some _ \<Rightarrow> State_Monad.return () | None \<Rightarrow> do {
         State_Monad.update (\<lambda>s. s\<lparr>podRuntimeState := gm_put (pod_Name pod) ''hi'' (podRuntimeState s)\<rparr>);
         t \<leftarrow> now E;
         _ \<leftarrow> status_update E
           (mk\<lparr>Status := (Status mk)\<lparr>CurrentRuntime := ''hi'', LastOverrunTime := Some t\<rparr>\<rparr>);
         State_Monad.return ()
       }
     }
   }"

definition handleOverrunEvent :: "env \<Rightarrow> OverrunData \<Rightarrow> unit act" where
  "handleOverrunEvent E data = do {
     r \<leftarrow> findPodByContainerID E (od_NodeName data) (od_ContainerID data);
     case r of Inl _ \<Rightarrow> State_Monad.return () | Inr None \<Rightarrow> State_Monad.return () | Inr (Some pod) \<Rightarrow> do {
       l \<leftarrow> list_mckubes E (pod_Namespace pod);
       case l of Inl _ \<Rightarrow> State_Monad.return () | Inr items \<Rightarrow>
         (case find_mckube (pod_Name pod) items of None \<Rightarrow> State_Monad.return () | Some mk \<Rightarrow>
           (case RTSettings (Spec mk) of None \<Rightarrow> State_Monad.return () | Some rts \<Rightarrow> do {
             log_realtime E pod;
             escalate E (od_ContainerID data) pod mk rts
           }))
     }
   }"

section \<open>Recovery of a node\<close>

definition revert_container :: "env \<Rightarrow> Pod \<Rightarrow> RTSettings \<Rightarrow> ContainerStatus \<Rightarrow> unit act" where
  "revert_container E pod rts cs =
     (if cs_ContainerID cs = '''' then State_Monad.return ()
      else do {
        _ \<leftarrow> SendRTRequest E (HostIP pod)
          \<lparr>req_ContainerID = cs_ContainerID cs, req_Period = Period rts, req_Runtime = RuntimeLow rts,
           req_Core = Core rts\<rparr>;
        State_Monad.return ()
      })"

definition revert_pod :: "env \<Rightarrow> Pod \<Rightarrow> unit act" where
  "revert_pod E pod = do {
     s \<leftarrow> State_Monad.get;
     if runtime_state s (pod_Name pod) \<noteq> ''hi'' then State_Monad.return ()
     else do {
       l \<leftarrow> list_mckubes E (pod_Namespace pod);
       case l of Inl _ \<Rightarrow> State_Monad.return () | Inr items \<Rightarrow>
         (case find_mckube (pod_Name pod) items of None \<Rightarrow> State_Monad.return () | Some mk \<Rightarrow>
           (case RTSettings (Spec mk) of None \<Rightarrow> State_Monad.return () | Some rts \<Rightarrow>
             if HostIP pod = '''' then State_Monad.return ()
             else do {
               for_each (revert_container E pod rts) (ContainerStatuses pod);
               State_Monad.update (\<lambda>s. s\<lparr>podRuntimeState := gm_put (pod_Name pod) ''low'' (podRuntimeState s)\<rparr>);
               _ \<leftarrow> status_update E (mk\<lparr>Status := (Status mk)\<lparr>CurrentRuntime := ''low''\<rparr>\<rparr>);
               State_Monad.return ()
             }))
     }
   }"

definition targetNamespace :: string where "targetNamespace = ''default''"

definition handleCPURecovery :: "env \<Rightarrow> string \<Rightarrow> unit act" where
  "handleCPURecovery E nodeName = do {
     r \<leftarrow> list_pods E (Some targetNamespace);
     case r of Inl _ \<Rightarrow> State_Monad.return () | Inr items \<Rightarrow>
       (let nodePods = [p \<leftarrow> items. NodeName p = nodeName \<and> gm_str (pod_Labels p) rt_label \<noteq> ''''] in
        if nodePods = [] then State_Monad.return ()
        else do {
          for_each (revert_pod E) nodePods;
          State_Monad.update (\<lambda>s. s\<lparr>PressureState := gm_del nodeName (PressureState s),
                                    ProcessingNodes := gm_del nodeName (ProcessingNodes s)\<rparr>)
        })
   }"

section \<open>Applying the settings of a pod\<close>

text \<open>
  The outcome of a handler that logs a dereferenced pointer: it returns an error or nil, or panics on
  a nil pointer. The log line after a request dereferences the core, whether the request succeeded or
  not.
\<close>

datatype 'a outcome = Returned 'a | Panicked | Diverged

definition core_to_use :: "McKube \<Rightarrow> RTSettings \<Rightarrow> string option" where
  "core_to_use mk rts = (if AllocatedCore (Status mk) \<noteq> '''' then Some (AllocatedCore (Status mk)) else Core rts)"

definition apply_container ::
    "env \<Rightarrow> Pod \<Rightarrow> McKube \<Rightarrow> RTSettings \<Rightarrow> int \<Rightarrow> ContainerStatus \<Rightarrow> go_error option outcome option act" where
  "apply_container E pod mk rts effective cs =
     (if cs_ContainerID cs = '''' then State_Monad.return None
      else do {
        e \<leftarrow> SendRTRequest E (HostIP pod)
          \<lparr>req_ContainerID = cs_ContainerID cs, req_Period = Period rts, req_Runtime = effective,
           req_Core = core_to_use mk rts\<rparr>;
        State_Monad.return
          (if core_to_use mk rts = None then Some Panicked
           else (case e of Some err \<Rightarrow> Some (Returned (Some err)) | None \<Rightarrow> None))
      })"

definition applyRTSettingsToContainers :: "env \<Rightarrow> Pod \<Rightarrow> McKube \<Rightarrow> go_error option outcome act" where
  "applyRTSettingsToContainers E pod mk =
     (case RTSettings (Spec mk) of
        None \<Rightarrow> State_Monad.return (Returned None)
      | Some rts \<Rightarrow>
          if HostIP pod = '''' then State_Monad.return (Returned (Some NoNodeIP))
          else do {
            s \<leftarrow> State_Monad.get;
            r \<leftarrow> for_until (apply_container E pod mk rts (effectiveRuntime (runtime_state s (pod_Name pod)) rts))
                   (ContainerStatuses pod);
            State_Monad.return (case r of None \<Rightarrow> Returned None | Some v \<Rightarrow> v)
          })"

section \<open>Matching a container\<close>

lemma str_contains_iff: "str_contains s sub \<longleftrightarrow> sublist sub s"
  unfolding str_contains_def by (induction s) (auto simp: sublist_Cons_right)

lemma normalize_suffix: "\<exists>a. s = a @ normalize_id s"
  by (auto simp: normalize_id_def split: option.split) (metis append_take_drop_id)

lemma contains_normalized: "str_contains s (normalize_id s)"
  unfolding str_contains_iff sublist_def using normalize_suffix [of s] by (metis append_Nil2)

text \<open>The three tests of the code amount to the last one.\<close>

lemma id_matches_iff: "id_matches containerID cs \<longleftrightarrow> str_contains (cs_ContainerID cs) (normalize_id containerID)"
  using contains_normalized [of "cs_ContainerID cs"] by (auto simp: id_matches_def)

section \<open>Effects\<close>

lemma reads_find [keeps_intros]: "only_reads.keeps (findPodByContainerID E n c)"
  unfolding findPodByContainerID_def by (intro only_reads.keeps_bind only_reads.keeps_return reads_calls)

lemma reads_log [keeps_intros]: "only_reads.keeps (log_realtime E pod)"
  by (auto simp: log_realtime_def intro!: only_reads.keeps_bind only_reads.keeps_return reads_collect)

lemma only_readsE:
  assumes "only_reads.keeps m"
  obtains a new where "run_state m s = (a, s\<lparr>calls := calls s @ new\<rparr>)" and "list_all is_read new"
  using assms by (metis only_readsD prod.exhaust)

definition hi_request :: "string \<Rightarrow> RTSettings \<Rightarrow> CgroupRequest" where
  "hi_request containerID rts = \<lparr>req_ContainerID = containerID, req_Period = Period rts,
     req_Runtime = RuntimeHi rts, req_Core = Core rts\<rparr>"

definition hi_status :: "int \<Rightarrow> McKube \<Rightarrow> McKube" where
  "hi_status t mk = mk\<lparr>Status := (Status mk)\<lparr>CurrentRuntime := ''hi'', LastOverrunTime := Some t\<rparr>\<rparr>"

text \<open>The three ways \<open>escalate\<close> ends: nothing to do, the daemon refused, the pod is high.\<close>

definition escalation :: "env \<Rightarrow> string \<Rightarrow> Pod \<Rightarrow> McKube \<Rightarrow> RTSettings \<Rightarrow> sys \<Rightarrow> sys \<Rightarrow> bool" where
  "escalation E cid pod mk rts s s' \<longleftrightarrow>
     (let post = Post (daemon_url (HostIP pod)) (cgroup_json (hi_request cid rts));
          accepted = daemon_accepts E (calls s) (HostIP pod) (hi_request cid rts) in
      runtime_state s (pod_Name pod) \<noteq> ''hi'' \<and> HostIP pod \<noteq> '''' \<and>
      (if accepted
       then \<exists>t. s' = s\<lparr>calls := calls s @ [post, StatusUpdate (hi_status t mk)],
                        podRuntimeState := gm_put (pod_Name pod) ''hi'' (podRuntimeState s)\<rparr>
       else s' = s\<lparr>calls := calls s @ [post]\<rparr>))"

lemma run_escalate:
  "if runtime_state s (pod_Name pod) = ''hi'' \<or> HostIP pod = ''''
   then snd (run_state (escalate E cid pod mk rts) s) = s
   else escalation E cid pod mk rts s (snd (run_state (escalate E cid pod mk rts) s))"
proof (cases "runtime_state s (pod_Name pod) = ''hi'' \<or> HostIP pod = ''''")
  case True
  then show ?thesis by (auto simp: escalate_def)
next
  case False
  show ?thesis
  proof (cases "daemon_accepts E (calls s) (HostIP pod) (hi_request cid rts)")
    case True
    let ?post = "Post (daemon_url (HostIP pod)) (cgroup_json (hi_request cid rts))"
    have "snd (run_state (escalate E cid pod mk rts) s) =
        s\<lparr>calls := calls s @ [?post, StatusUpdate (hi_status (on_now E (calls s @ [?post])) mk)],
          podRuntimeState := gm_put (pod_Name pod) ''hi'' (podRuntimeState s)\<rparr>"
      using False True
      by (simp add: escalate_def run_SendRTRequest daemon_accepts_def hi_request_def hi_status_def status_update_def)
    then show ?thesis using False True unfolding escalation_def Let_def by auto
  next
    case refused: False
    then show ?thesis using False
      by (auto simp: escalate_def escalation_def run_SendRTRequest daemon_accepts_def hi_request_def
          Let_def split: sum.split)
  qed
qed

text \<open>
  Whom an overrun report is about: the first pod, in the answer to the list call, that has the reported
  container on the reported node, and the first McKube of that pod in the answer listing its
  namespace; the McKube has settings, and the pod is not marked high and has an address.
\<close>

definition overrun_target :: "env \<Rightarrow> sys \<Rightarrow> OverrunData \<Rightarrow> Pod \<Rightarrow> McKube \<Rightarrow> RTSettings \<Rightarrow> bool" where
  "overrun_target E s data pod mk rts \<longleftrightarrow>
     (\<exists>pods items. on_list_pods E (calls s) None = Inr pods \<and>
        find (pod_has_container (od_NodeName data) (od_ContainerID data)) pods = Some pod \<and>
        on_list_mckubes E (calls s @ [ListPods None]) (pod_Namespace pod) = Inr items \<and>
        find_mckube (pod_Name pod) items = Some mk) \<and>
     RTSettings (Spec mk) = Some rts \<and> runtime_state s (pod_Name pod) \<noteq> ''hi'' \<and> HostIP pod \<noteq> ''''"

lemma run_handleOverrunEvent:
  "\<exists>reads. list_all is_read reads \<and>
    (let s1 = s\<lparr>calls := calls s @ reads\<rparr>; s' = snd (run_state (handleOverrunEvent E data) s) in
     ((\<nexists>pod mk rts. overrun_target E s data pod mk rts) \<longrightarrow> s' = s1) \<and>
     (\<forall>pod mk rts. overrun_target E s data pod mk rts \<longrightarrow> escalation E (od_ContainerID data) pod mk rts s1 s'))"
proof (cases "\<exists>pods pod. on_list_pods E (calls s) None = Inr pods \<and>
    find (pod_has_container (od_NodeName data) (od_ContainerID data)) pods = Some pod")
  case False
  then have "snd (run_state (handleOverrunEvent E data) s) = s\<lparr>calls := calls s @ [ListPods None]\<rparr>"
    by (auto simp: handleOverrunEvent_def findPodByContainerID_def list_pods_def split: sum.split option.split)
  moreover have "\<not> overrun_target E s data pod mk rts" for pod mk rts
    using False by (auto simp: overrun_target_def)
  ultimately show ?thesis by (intro exI [of _ "[ListPods None]"]) (simp add: is_read_def)
next
  case True
  then obtain pods pod where pod: "on_list_pods E (calls s) None = Inr pods"
    "find (pod_has_container (od_NodeName data) (od_ContainerID data)) pods = Some pod" by blast
  let ?l = "on_list_mckubes E (calls s @ [ListPods None]) (pod_Namespace pod)"
  let ?b = "[ListPods None, ListMcKubes (pod_Namespace pod)]"
  have b: "list_all is_read ?b" by (simp add: is_read_def)
  show ?thesis
  proof (cases "\<exists>items mk rts. ?l = Inr items \<and> find_mckube (pod_Name pod) items = Some mk \<and>
      RTSettings (Spec mk) = Some rts")
    case False
    then have "snd (run_state (handleOverrunEvent E data) s) = s\<lparr>calls := calls s @ ?b\<rparr>"
      using pod
      by (auto simp: handleOverrunEvent_def findPodByContainerID_def list_pods_def list_mckubes_def
          split: sum.split option.split)
    moreover have "\<not> overrun_target E s data p mk rts" for p mk rts
      using False pod by (auto simp: overrun_target_def)
    ultimately show ?thesis using b by (intro exI [of _ ?b]) simp
  next
    case True
    then obtain items mk rts where mk: "?l = Inr items" "find_mckube (pod_Name pod) items = Some mk"
      "RTSettings (Spec mk) = Some rts" by blast
    let ?s1 = "s\<lparr>calls := calls s @ ?b\<rparr>"
    obtain u c where c: "run_state (log_realtime E pod) ?s1 = (u, ?s1\<lparr>calls := calls ?s1 @ c\<rparr>)"
      "list_all is_read c"
      by (rule only_readsE [OF reads_log])
    let ?s2 = "s\<lparr>calls := calls s @ ?b @ c\<rparr>" and ?s' = "snd (run_state (handleOverrunEvent E data) s)"
    have run: "?s' = snd (run_state (escalate E (od_ContainerID data) pod mk rts) ?s2)"
      using pod mk c(1) by (simp add: handleOverrunEvent_def findPodByContainerID_def list_pods_def list_mckubes_def)
    have target: "overrun_target E s data p m r \<longleftrightarrow> p = pod \<and> m = mk \<and> r = rts \<and>
        \<not> (runtime_state s (pod_Name pod) = ''hi'' \<or> HostIP pod = '''')" for p m r
      using pod mk by (auto simp: overrun_target_def)
    have state: "runtime_state ?s2 n = runtime_state s n" for n by (simp add: runtime_state_def)
    show ?thesis
      using run_escalate [of ?s2 pod E "od_ContainerID data" mk rts] b c(2)
      unfolding run [symmetric] state target by (intro exI [of _ "?b @ c"]) (auto simp: Let_def split: if_splits)
  qed
qed

lemma overrun_cases:
  "\<exists>reads. list_all is_read reads \<and>
    (let s1 = s\<lparr>calls := calls s @ reads\<rparr>; s' = snd (run_state (handleOverrunEvent E data) s) in
     s' = s1 \<or> (\<exists>pod mk rts. PodName (Spec mk) = pod_Name pod \<and> RTSettings (Spec mk) = Some rts \<and>
       escalation E (od_ContainerID data) pod mk rts s1 s'))"
proof -
  have "PodName (Spec mk) = pod_Name pod \<and> RTSettings (Spec mk) = Some rts"
    if "overrun_target E s data pod mk rts" for pod mk rts
    using that find_mckube_name by (auto simp: overrun_target_def)
  then show ?thesis using run_handleOverrunEvent [of s E data] unfolding Let_def by metis
qed

section \<open>Recovery only lowers\<close>

definition lowers :: "sys \<Rightarrow> sys \<Rightarrow> bool" where
  "lowers s t \<longleftrightarrow> (\<forall>n. map_of (podRuntimeState t) n = map_of (podRuntimeState s) n \<or>
     map_of (podRuntimeState s) n = Some ''hi'' \<and> map_of (podRuntimeState t) n = Some ''low'') \<and>
   cpuPools t = cpuPools s \<and> lastCpuBusyState t = lastCpuBusyState s"

interpretation lowers: call_frame lowers
proof unfold_locales
  fix s t u :: sys
  assume "lowers s t" "lowers t u"
  then have p: "cpuPools u = cpuPools s" "lastCpuBusyState u = lastCpuBusyState s"
    and 1: "\<And>n. map_of (podRuntimeState t) n = map_of (podRuntimeState s) n \<or>
      map_of (podRuntimeState s) n = Some ''hi'' \<and> map_of (podRuntimeState t) n = Some ''low''"
    and 2: "\<And>n. map_of (podRuntimeState u) n = map_of (podRuntimeState t) n \<or>
      map_of (podRuntimeState t) n = Some ''hi'' \<and> map_of (podRuntimeState u) n = Some ''low''"
    unfolding lowers_def by simp_all
  have "map_of (podRuntimeState u) n = map_of (podRuntimeState s) n \<or>
      map_of (podRuntimeState s) n = Some ''hi'' \<and> map_of (podRuntimeState u) n = Some ''low''" for n
    using 1 [of n] 2 [of n] by (elim disjE) simp_all
  then show "lowers s u" using p by (simp add: lowers_def)
qed (simp_all add: lowers_def)

lemma only_calls_lowers: "only_calls s t \<Longrightarrow> lowers s t"
  by (auto simp: only_calls_def lowers_def)

lemma keeps_revert_container: "only_calls.keeps (revert_container E pod rts cs)"
  by (auto simp: revert_container_def intro!: only_calls.keeps_bind only_calls.keeps_return only_calls.keeps_send)

text \<open>The pods that recovery can revert, whatever else happens in between.\<close>

definition revertible :: "env \<Rightarrow> Pod \<Rightarrow> bool" where
  "revertible E p \<longleftrightarrow> HostIP p \<noteq> '''' \<and>
     (\<forall>h. \<exists>items mk rts. on_list_mckubes E h (pod_Namespace p) = Inr items \<and>
        find_mckube (pod_Name p) items = Some mk \<and> RTSettings (Spec mk) = Some rts)"

lemma run_revert_pod:
  fixes E p s
  defines "s' \<equiv> snd (run_state (revert_pod E p) s)"
  shows "only_calls s s' \<and> (revertible E p \<longrightarrow> runtime_state s (pod_Name p) \<noteq> ''hi'') \<or>
    runtime_state s (pod_Name p) = ''hi'' \<and>
    (\<exists>new. s' = s\<lparr>calls := calls s @ new, podRuntimeState := gm_put (pod_Name p) ''low'' (podRuntimeState s)\<rparr>)"
proof (cases "runtime_state s (pod_Name p) = ''hi''")
  case False
  then show ?thesis using only_calls.R_refl [of s] by (simp add: s'_def revert_pod_def)
next
  case hi: True
  let ?l = "on_list_mckubes E (calls s) (pod_Namespace p)"
  let ?s1 = "s\<lparr>calls := calls s @ [ListMcKubes (pod_Namespace p)]\<rparr>"
  show ?thesis
  proof (cases "\<exists>items mk rts. ?l = Inr items \<and> find_mckube (pod_Name p) items = Some mk \<and>
      RTSettings (Spec mk) = Some rts \<and> HostIP p \<noteq> ''''")
    case False
    then have "s' = ?s1"
      unfolding s'_def using hi
      by (cases ?l) (auto simp: revert_pod_def list_mckubes_def split: option.split)
    moreover have "\<not> revertible E p"
    proof
      assume "revertible E p"
      then obtain items mk rts where "?l = Inr items \<and> find_mckube (pod_Name p) items = Some mk \<and>
          RTSettings (Spec mk) = Some rts" "HostIP p \<noteq> ''''" unfolding revertible_def by metis
      then show False using False by simp
    qed
    ultimately show ?thesis using only_calls_add [of s "[ListMcKubes (pod_Namespace p)]"] by (intro disjI1) simp
  next
    case True
    then obtain items mk rts where l: "?l = Inr items" "find_mckube (pod_Name p) items = Some mk"
      "RTSettings (Spec mk) = Some rts" "HostIP p \<noteq> ''''" by blast
    obtain a s2 where r: "run_state (for_each (revert_container E p rts) (ContainerStatuses p)) ?s1 = (a, s2)"
      by (metis prod.exhaust)
    have "only_calls.keeps (for_each (revert_container E p rts) (ContainerStatuses p))"
      by (intro only_calls.keeps_for_each keeps_revert_container)
    from only_calls.keepsD [OF this, of ?s1] have "only_calls ?s1 s2" by (simp only: r snd_conv)
    then obtain new where s2: "s2 = s\<lparr>calls := calls s @ new\<rparr>" by (auto simp: only_calls_def)
    have "s' = s\<lparr>calls := calls s @ new @ [StatusUpdate (mk\<lparr>Status := (Status mk)\<lparr>CurrentRuntime := ''low''\<rparr>\<rparr>)],
        podRuntimeState := gm_put (pod_Name p) ''low'' (podRuntimeState s)\<rparr>"
      unfolding s'_def using hi l r by (simp add: revert_pod_def list_mckubes_def status_update_def s2)
    then have "\<exists>new. s' = s\<lparr>calls := calls s @ new,
        podRuntimeState := gm_put (pod_Name p) ''low'' (podRuntimeState s)\<rparr>" by (rule exI)
    with hi show ?thesis by simp
  qed
qed

lemma runtime_state_hi: "runtime_state s n = ''hi'' \<longleftrightarrow> map_of (podRuntimeState s) n = Some ''hi''"
  by (auto simp: runtime_state_def gm_str_def split: option.splits)

lemma keeps_revert_pod: "lowers.keeps (revert_pod E p)"
proof (rule lowers.keepsI)
  fix s
  show "lowers s (snd (run_state (revert_pod E p) s))"
    using run_revert_pod [of s E p] only_calls_lowers
    by (auto simp: runtime_state_hi) (auto simp: lowers_def)
qed

lemma not_hi_stays: "lowers s t \<Longrightarrow> runtime_state s n \<noteq> ''hi'' \<Longrightarrow> runtime_state t n \<noteq> ''hi''"
  unfolding runtime_state_hi lowers_def by metis

lemma reverted:
  assumes "revertible E p" and "p \<in> set ps"
  shows "runtime_state (snd (run_state (for_each (revert_pod E) ps) s)) (pod_Name p) \<noteq> ''hi''"
  using assms
proof (induction ps arbitrary: s)
  case (Cons q ps)
  let ?s1 = "snd (run_state (revert_pod E q) s)"
  have eq: "snd (run_state (for_each (revert_pod E) (q # ps)) s) = snd (run_state (for_each (revert_pod E) ps) ?s1)"
    by (simp add: case_prod_beta')
  show ?case
  proof (cases "p \<in> set ps")
    case True
    then show ?thesis using Cons eq by simp
  next
    case False
    then have "p = q" using Cons.prems(2) by simp
    moreover have "runtime_state ?s1 (pod_Name q) \<noteq> ''hi''"
      using run_revert_pod [of s E q] Cons.prems(1) \<open>p = q\<close>
      by (auto simp: only_calls_def runtime_state_def) (auto simp: gm_str_def)
    moreover have "lowers ?s1 (snd (run_state (for_each (revert_pod E) ps) ?s1))"
      by (rule lowers.keepsD [OF lowers.keeps_for_each [OF keeps_revert_pod]])
    ultimately show ?thesis using eq not_hi_stays by auto
  qed
qed simp

text \<open>The pods a recovery of the node looks at, and the state after they have been dealt with.\<close>

definition recovery_pods :: "env \<Rightarrow> sys \<Rightarrow> string \<Rightarrow> Pod list" where
  "recovery_pods E s n = (case on_list_pods E (calls s) (Some targetNamespace) of Inl _ \<Rightarrow> []
     | Inr items \<Rightarrow> [p \<leftarrow> items. NodeName p = n \<and> gm_str (pod_Labels p) rt_label \<noteq> ''''])"

definition after_reverts :: "env \<Rightarrow> string \<Rightarrow> sys \<Rightarrow> sys" where
  "after_reverts E n s = snd (run_state (for_each (revert_pod E) (recovery_pods E s n))
     (s\<lparr>calls := calls s @ [ListPods (Some targetNamespace)]\<rparr>))"

lemma run_handleCPURecovery:
  "snd (run_state (handleCPURecovery E n) s) =
   (let t = after_reverts E n s in
    if recovery_pods E s n = [] then t
    else t\<lparr>PressureState := gm_del n (PressureState t), ProcessingNodes := gm_del n (ProcessingNodes t)\<rparr>)"
  by (auto simp: after_reverts_def recovery_pods_def handleCPURecovery_def list_pods_def Let_def
      case_prod_beta' split: sum.split)

lemma keeps_pressure_revert_pod: "same_pressure.keeps (revert_pod E p)"
  unfolding revert_pod_def revert_container_def
  by (auto split: sum.split option.split
      intro!: same_pressure.keeps_bind same_pressure.keeps_return same_pressure.keeps_get
        same_pressure.keeps_calls same_pressure.keeps_for_each same_pressure.keeps_send
        same_pressure.keeps_update simp: same_pressure_def)

lemma pressure_reverts:
  "PressureState (after_reverts E n s) = PressureState s"
  "ProcessingNodes (after_reverts E n s) = ProcessingNodes s"
proof -
  let ?s1 = "s\<lparr>calls := calls s @ [ListPods (Some targetNamespace)]\<rparr>"
  have "same_pressure.keeps (for_each (revert_pod E) (recovery_pods E s n))"
    by (intro same_pressure.keeps_for_each keeps_pressure_revert_pod)
  from same_pressure.keepsD [OF this, of ?s1]
  show "PressureState (after_reverts E n s) = PressureState s"
    "ProcessingNodes (after_reverts E n s) = ProcessingNodes s"
    by (simp_all add: after_reverts_def same_pressure_def)
qed

lemma lowers_after_reverts: "lowers s (after_reverts E n s)"
  unfolding after_reverts_def
  using lowers.R_calls lowers.keepsD [OF lowers.keeps_for_each [OF keeps_revert_pod]]
  by (rule lowers.R_trans)

lemma recovery_lowers: "lowers s (snd (run_state (handleCPURecovery E n) s))"
  using lowers_after_reverts [of s E n] by (simp add: run_handleCPURecovery Let_def lowers_def)

text \<open>
  Frames of the two handlers, by what they may change: recovery sets runtime states and clears the
  node's pressure, an overrun sets runtime states.
\<close>

context call_frame
begin

lemma keeps_recovery:
  assumes "\<And>s p. R s (s\<lparr>podRuntimeState := p\<rparr>)"
    and "\<And>s. R s (s\<lparr>PressureState := gm_del n (PressureState s), ProcessingNodes := gm_del n (ProcessingNodes s)\<rparr>)"
  shows "keeps (handleCPURecovery E n)"
proof -
  have "keeps (revert_pod E p)" for p
    unfolding revert_pod_def
    by (auto split: sum.split option.split
        intro!: keeps_bind keeps_return keeps_get keeps_calls keeps_update assms(1) keeps_for_each
          keeps_only_calls [OF keeps_revert_container])
  then show ?thesis
    unfolding handleCPURecovery_def Let_def
    by (auto split: sum.split intro!: keeps_bind keeps_return keeps_calls keeps_for_each keeps_update assms(2))
qed

lemma keeps_overrun:
  assumes "\<And>s n. R s (s\<lparr>podRuntimeState := gm_put n ''hi'' (podRuntimeState s)\<rparr>)"
  shows "keeps (handleOverrunEvent E data)"
proof -
  have "keeps (escalate E cid pod mk rts)" for cid pod mk rts
    unfolding escalate_def
    by (auto split: option.split
        intro!: keeps_bind keeps_return keeps_get keeps_send keeps_update assms keeps_now keeps_calls)
  then show ?thesis
    unfolding handleOverrunEvent_def
    by (auto split: sum.split option.split
        intro!: keeps_bind keeps_return keeps_calls keeps_only_reads [OF reads_find] keeps_only_reads [OF reads_log])
qed

end

section \<open>The settings applied to a pod's containers\<close>

definition apply_req :: "McKube \<Rightarrow> RTSettings \<Rightarrow> int \<Rightarrow> ContainerStatus \<Rightarrow> CgroupRequest" where
  "apply_req mk rts effective cs =
     \<lparr>req_ContainerID = cs_ContainerID cs, req_Period = Period rts, req_Runtime = effective,
      req_Core = core_to_use mk rts\<rparr>"

definition post_to :: "string \<Rightarrow> CgroupRequest \<Rightarrow> call" where
  "post_to ip req = Post (daemon_url ip) (cgroup_json req)"

text \<open>Whether the daemon accepts the request at a position, when all requests before it were sent.\<close>

definition accepted_at :: "env \<Rightarrow> call list \<Rightarrow> string \<Rightarrow> CgroupRequest list \<Rightarrow> nat \<Rightarrow> bool" where
  "accepted_at E h ip reqs j = daemon_accepts E (h @ map (post_to ip) (take j reqs)) ip (reqs ! j)"

lemma accepted_at_simps:
  "accepted_at E h ip (r # rs) 0 = daemon_accepts E h ip r"
  "accepted_at E h ip (r # rs) (Suc j) = accepted_at E (h @ [post_to ip r]) ip rs j"
  by (simp_all add: accepted_at_def)

definition started :: "ContainerStatus list \<Rightarrow> ContainerStatus list" where
  "started css = [cs \<leftarrow> css. cs_ContainerID cs \<noteq> '''']"

lemma run_apply_container:
  "run_state (apply_container E pod mk rts eff cs) s =
   (if cs_ContainerID cs = '''' then (None, s)
    else (if core_to_use mk rts = None then Some Panicked
          else map_option (\<lambda>e. Returned (Some e))
            (fst (run_state (SendRTRequest E (HostIP pod) (apply_req mk rts eff cs)) s)),
          s\<lparr>calls := calls s @ [post_to (HostIP pod) (apply_req mk rts eff cs)]\<rparr>))"
  by (auto simp: apply_container_def apply_req_def post_to_def run_SendRTRequest split: sum.split)

text \<open>
  How the loop over the containers ends after \<open>k\<close> requests: with all of them accepted, after the first
  one that is not, or with a panic after the first one.
\<close>

definition apply_ends ::
    "env \<Rightarrow> call list \<Rightarrow> string \<Rightarrow> bool \<Rightarrow> CgroupRequest list \<Rightarrow> nat \<Rightarrow> go_error option outcome \<Rightarrow> bool" where
  "apply_ends E h ip with_core reqs k out \<longleftrightarrow>
     k \<le> length reqs \<and> (\<forall>j. Suc j < k \<longrightarrow> accepted_at E h ip reqs j) \<and>
     (case out of
        Returned None \<Rightarrow> k = length reqs \<and> (k = 0 \<or> with_core \<and> accepted_at E h ip reqs (k - 1))
      | Returned (Some e) \<Rightarrow> with_core \<and> 0 < k \<and> \<not> accepted_at E h ip reqs (k - 1)
      | Panicked \<Rightarrow> \<not> with_core \<and> k = 1
      | Diverged \<Rightarrow> False)"

lemma apply_ends_Cons:
  assumes "daemon_accepts E h ip r" and "with_core" and "apply_ends E (h @ [post_to ip r]) ip with_core rs k out"
  shows "apply_ends E h ip with_core (r # rs) (Suc k) out"
proof -
  have 0: "accepted_at E h ip (r # rs) j" if "Suc j < Suc k" for j
    using that assms by (cases j) (simp_all add: accepted_at_simps apply_ends_def)
  have "accepted_at E h ip (r # rs) k \<longleftrightarrow> (if k = 0 then True else accepted_at E (h @ [post_to ip r]) ip rs (k - 1))"
    using assms(1) by (cases k) (simp_all add: accepted_at_simps)
  then show ?thesis
    using assms(2,3) 0 by (auto simp: apply_ends_def split: outcome.splits option.splits)
qed

lemma run_apply_all:
  "\<exists>k. let r = run_state (for_until (apply_container E pod mk rts eff) css) s;
      reqs = map (apply_req mk rts eff) (started css) in
    snd r = s\<lparr>calls := calls s @ map (post_to (HostIP pod)) (take k reqs)\<rparr> \<and>
    apply_ends E (calls s) (HostIP pod) (core_to_use mk rts \<noteq> None) reqs k
      (case fst r of None \<Rightarrow> Returned None | Some v \<Rightarrow> v)"
proof (induction css arbitrary: s)
  case Nil
  show ?case by (intro exI [of _ 0]) (simp add: started_def apply_ends_def)
next
  case (Cons cs css)
  show ?case
  proof (cases "cs_ContainerID cs = ''''")
    case True
    then show ?thesis using Cons [of s] by (simp add: run_apply_container started_def)
  next
    case False
    let ?req = "apply_req mk rts eff cs" and ?ip = "HostIP pod"
    let ?s1 = "s\<lparr>calls := calls s @ [post_to ?ip ?req]\<rparr>" and ?reqs = "map (apply_req mk rts eff) (started css)"
    have reqs: "map (apply_req mk rts eff) (started (cs # css)) = ?req # ?reqs" using False by (simp add: started_def)
    show ?thesis
    proof (cases "core_to_use mk rts \<noteq> None \<and> daemon_accepts E (calls s) ?ip ?req")
      case True
      then have head: "run_state (apply_container E pod mk rts eff cs) s = (None, ?s1)"
        using False by (simp add: run_apply_container SendRTRequest_ok)
      obtain k where k: "let r = run_state (for_until (apply_container E pod mk rts eff) css) ?s1 in
          snd r = ?s1\<lparr>calls := calls ?s1 @ map (post_to ?ip) (take k ?reqs)\<rparr> \<and>
          apply_ends E (calls ?s1) ?ip (core_to_use mk rts \<noteq> None) ?reqs k
            (case fst r of None \<Rightarrow> Returned None | Some v \<Rightarrow> v)"
        using Cons [of ?s1] by (auto simp: Let_def)
      have "apply_ends E (calls s) ?ip (core_to_use mk rts \<noteq> None) (?req # ?reqs) (Suc k)
          (case fst (run_state (for_until (apply_container E pod mk rts eff) css) ?s1) of
             None \<Rightarrow> Returned None | Some v \<Rightarrow> v)"
        using k True by (intro apply_ends_Cons) (simp_all add: Let_def)
      then show ?thesis unfolding reqs using k head by (intro exI [of _ "Suc k"]) (simp add: Let_def)
    next
      case refused: False
      obtain v where head: "run_state (apply_container E pod mk rts eff cs) s = (Some v, ?s1)"
        "if core_to_use mk rts = None then v = Panicked else \<exists>e. v = Returned (Some e)"
        using False refused
        by (cases "core_to_use mk rts = None"; cases "fst (run_state (SendRTRequest E ?ip ?req) s)")
          (auto simp: run_apply_container SendRTRequest_ok [symmetric])
      have "apply_ends E (calls s) ?ip (core_to_use mk rts \<noteq> None) (?req # ?reqs) 1 v"
        using head(2) refused by (auto simp: apply_ends_def accepted_at_simps split: if_splits)
      then show ?thesis unfolding reqs using head(1) by (intro exI [of _ 1]) (simp add: Let_def)
    qed
  qed
qed

section \<open>Properties\<close>

definition runtime_ok :: "sys \<Rightarrow> bool" where
  "runtime_ok s \<longleftrightarrow> (\<forall>n v. map_of (podRuntimeState s) n = Some v \<longrightarrow> v = ''low'' \<or> v = ''hi'')"

lemma runtime_ok_put: "runtime_ok s \<Longrightarrow> v = ''low'' \<or> v = ''hi'' \<Longrightarrow>
  runtime_ok (s\<lparr>podRuntimeState := gm_put n v (podRuntimeState s)\<rparr>)"
  by (auto simp: runtime_ok_def)

lemma runtime_ok_lowers: "lowers s t \<Longrightarrow> runtime_ok s \<Longrightarrow> runtime_ok t"
  unfolding runtime_ok_def lowers_def by (metis option.inject)

lemma runtime_ok_calls [simp]: "runtime_ok (s\<lparr>calls := c\<rparr>) = runtime_ok s"
  by (simp add: runtime_ok_def)

lemma runtime_ok_calls_put [simp]:
  "runtime_ok (s\<lparr>calls := c, podRuntimeState := p\<rparr>) = runtime_ok (s\<lparr>podRuntimeState := p\<rparr>)"
  by (simp add: runtime_ok_def)

lemma runtime_ok_escalation: "escalation E cid pod mk rts s t \<Longrightarrow> runtime_ok s \<Longrightarrow> runtime_ok t"
  by (auto simp: escalation_def Let_def runtime_ok_put split: if_splits)

text \<open>
  C16: a pod is marked high only after the daemon of its node answered 200 to the request with the
  high runtime. Handling an overrun first makes only reading calls. If the report has a target (the
  first listed pod with the reported container on the reported node, not marked high and with an
  address, and the first listed McKube of that pod, with settings), one request is sent to the pod's
  address, for the reported container and with the period, the high runtime and the core of the
  McKube's spec; if the daemon accepts it, the pod alone is marked high and the status is sent with
  it, and if not, nothing changes. Without a target nothing is sent and nothing changes.
\<close>

theorem handleOverrunEvent_escalates:
  "\<exists>reads. list_all is_read reads \<and>
    (let s1 = s\<lparr>calls := calls s @ reads\<rparr>; s' = snd (run_state (handleOverrunEvent E data) s) in
     ((\<nexists>pod mk rts. overrun_target E s data pod mk rts) \<longrightarrow> s' = s1) \<and>
     (\<forall>pod mk rts. overrun_target E s data pod mk rts \<longrightarrow>
       (let req = \<lparr>req_ContainerID = od_ContainerID data, req_Period = Period rts,
                   req_Runtime = RuntimeHi rts, req_Core = Core rts\<rparr>;
            post = Post (daemon_url (HostIP pod)) (cgroup_json req) in
        if daemon_accepts E (calls s1) (HostIP pod) req
        then \<exists>t. s' = s\<lparr>calls := calls s1 @ [post, StatusUpdate (hi_status t mk)],
                         podRuntimeState := gm_put (pod_Name pod) ''hi'' (podRuntimeState s)\<rparr>
        else s' = s\<lparr>calls := calls s1 @ [post]\<rparr>)))"
proof -
  define s' where "s' = snd (run_state (handleOverrunEvent E data) s)"
  obtain reads where r: "list_all is_read reads"
    "(\<nexists>pod mk rts. overrun_target E s data pod mk rts) \<longrightarrow> s' = s\<lparr>calls := calls s @ reads\<rparr>"
    "\<forall>pod mk rts. overrun_target E s data pod mk rts \<longrightarrow>
      escalation E (od_ContainerID data) pod mk rts (s\<lparr>calls := calls s @ reads\<rparr>) s'"
    using run_handleOverrunEvent [of s E data] unfolding Let_def s'_def by blast
  let ?s1 = "s\<lparr>calls := calls s @ reads\<rparr>"
  have "let req = \<lparr>req_ContainerID = od_ContainerID data, req_Period = Period rts,
                 req_Runtime = RuntimeHi rts, req_Core = Core rts\<rparr>;
          post = Post (daemon_url (HostIP pod)) (cgroup_json req) in
      if daemon_accepts E (calls ?s1) (HostIP pod) req
      then \<exists>t. s' = s\<lparr>calls := calls ?s1 @ [post, StatusUpdate (hi_status t mk)],
                       podRuntimeState := gm_put (pod_Name pod) ''hi'' (podRuntimeState s)\<rparr>
      else s' = s\<lparr>calls := calls ?s1 @ [post]\<rparr>"
    if "overrun_target E s data pod mk rts" for pod mk rts
    using r(3) [rule_format, OF that] by (auto simp: Let_def escalation_def hi_request_def split: if_splits)
  with r(1,2) show ?thesis unfolding s'_def [symmetric] Let_def by blast
qed

text \<open>The example: two pods, of which the second has the container; the daemon accepts.\<close>

definition plain_pod :: Pod where
  "plain_pod = demo_rt_pod\<lparr>pod_Labels := []\<rparr>"

definition overrun_env :: env where
  "overrun_env = demo_env\<lparr>
     on_list_pods := \<lambda>_ _. Inr [plain_pod\<lparr>pod_Name := ''q'', ContainerStatuses := []\<rparr>, plain_pod],
     on_list_mckubes := \<lambda>_ _. Inr [demo_mckube None]\<rparr>"

definition overrun_data :: OverrunData where
  "overrun_data = \<lparr>od_NodeName = ''worker'', od_ContainerID = ''abc'', od_Timestamp = 0\<rparr>"

lemma demo_overrun:
  "overrun_target overrun_env demo_sys overrun_data plain_pod (demo_mckube None)
     \<lparr>Period = 1000, RuntimeLow = 300, RuntimeHi = 500, Core = None\<rparr>"
  "daemon_accepts overrun_env h ip req"
proof -
  have "str_contains ''containerd://abc'' (normalize_id ''abc'')" by code_simp
  then have "pod_has_container ''worker'' ''abc'' plain_pod"
    by (simp add: pod_has_container_def id_matches_iff plain_pod_def demo_rt_pod_def)
  moreover have "\<not> pod_has_container ''worker'' ''abc'' (plain_pod\<lparr>pod_Name := ''q'', ContainerStatuses := []\<rparr>)"
    by (simp add: pod_has_container_def plain_pod_def demo_rt_pod_def)
  ultimately have "find (pod_has_container ''worker'' ''abc'')
      [plain_pod\<lparr>pod_Name := ''q'', ContainerStatuses := []\<rparr>, plain_pod] = Some plain_pod" by simp
  then show "overrun_target overrun_env demo_sys overrun_data plain_pod (demo_mckube None)
     \<lparr>Period = 1000, RuntimeLow = 300, RuntimeHi = 500, Core = None\<rparr>"
    by (simp add: overrun_target_def overrun_env_def overrun_data_def)
      (simp add: plain_pod_def demo_rt_pod_def find_mckube_def demo_mckube_def runtime_state_def demo_sys_def gm_str_def)
  show "daemon_accepts overrun_env h ip req" by (simp add: daemon_accepts_def overrun_env_def demo_env_def)
qed

theorem handleOverrunEvent_escalates_witness:
  "map_of (podRuntimeState (snd (run_state (handleOverrunEvent overrun_env overrun_data) demo_sys))) ''p'' = Some ''hi''"
proof -
  have name: "pod_Name plain_pod = ''p''" by (simp add: plain_pod_def demo_rt_pod_def)
  obtain c t where "snd (run_state (handleOverrunEvent overrun_env overrun_data) demo_sys) =
      demo_sys\<lparr>calls := c, podRuntimeState := gm_put (pod_Name plain_pod) ''hi'' (podRuntimeState demo_sys)\<rparr>"
    using handleOverrunEvent_escalates [of demo_sys overrun_env overrun_data] demo_overrun
    unfolding Let_def by metis
  then show ?thesis by (simp add: name)
qed

text \<open>
  The three comparisons \<open>findPodByContainerID\<close> makes amount to the last one: a container matches
  exactly when its id contains the normalised id asked for. So the id of a started container finds a
  pod on that node, and the empty id, which the event format does not exclude, matches every pod of
  the node that has a container status.
\<close>

lemma pod_has_container_iff:
  "pod_has_container nodeName cid pod \<longleftrightarrow>
    (nodeName = '''' \<or> NodeName pod = nodeName) \<and>
    (\<exists>cs \<in> set (ContainerStatuses pod) \<union> set (InitContainerStatuses pod).
       sublist (normalize_id cid) (cs_ContainerID cs))"
  by (auto simp: pod_has_container_def id_matches_iff str_contains_iff)

text \<open>
  C17: recovery of a node only lowers: every pod's runtime state is unchanged or goes from high to low,
  and the CPU pools and recorded busy states are untouched. When the node has real-time pods, its
  pressure state and its processing flag are gone afterwards, those of other nodes stay, and each of
  those pods whose McKube, settings and address are available is no longer marked high, whatever
  becomes of the other pods and whether or not the daemon accepts the requests.
\<close>

theorem handleCPURecovery_lowers:
  "let s' = snd (run_state (handleCPURecovery E n) s) in
   (\<forall>p. map_of (podRuntimeState s') p = map_of (podRuntimeState s) p \<or>
     map_of (podRuntimeState s) p = Some ''hi'' \<and> map_of (podRuntimeState s') p = Some ''low'') \<and>
   cpuPools s' = cpuPools s \<and> lastCpuBusyState s' = lastCpuBusyState s \<and>
   map_of (PressureState s') = (if recovery_pods E s n = [] then map_of (PressureState s)
     else (map_of (PressureState s))(n := None)) \<and>
   map_of (ProcessingNodes s') = (if recovery_pods E s n = [] then map_of (ProcessingNodes s)
     else (map_of (ProcessingNodes s))(n := None)) \<and>
   (\<forall>p \<in> set (recovery_pods E s n). revertible E p \<longrightarrow> runtime_state s' (pod_Name p) \<noteq> ''hi'')"
proof -
  let ?s' = "snd (run_state (handleCPURecovery E n) s)" and ?ps = "recovery_pods E s n"
  have rev: "\<forall>p \<in> set ?ps. revertible E p \<longrightarrow> runtime_state ?s' (pod_Name p) \<noteq> ''hi''"
  proof (intro ballI impI)
    fix p assume "p \<in> set ?ps" "revertible E p"
    then have "runtime_state (after_reverts E n s) (pod_Name p) \<noteq> ''hi''"
      unfolding after_reverts_def by (intro reverted)
    then show "runtime_state ?s' (pod_Name p) \<noteq> ''hi''"
      by (simp add: run_handleCPURecovery Let_def runtime_state_def)
  qed
  have gone: "map_of (PressureState ?s') = (if ?ps = [] then map_of (PressureState s)
      else (map_of (PressureState s))(n := None))"
    "map_of (ProcessingNodes ?s') = (if ?ps = [] then map_of (ProcessingNodes s)
      else (map_of (ProcessingNodes s))(n := None))"
    by (simp_all add: run_handleCPURecovery Let_def pressure_reverts)
  show ?thesis
    using recovery_lowers [of s E n] rev unfolding Let_def lowers_def gone by blast
qed

text \<open>The example: of the node's two pods, both marked high, the first has no McKube.\<close>

definition recovery_env :: env where
  "recovery_env = demo_env\<lparr>on_list_pods := \<lambda>_ _. Inr [demo_rt_pod\<lparr>pod_Name := ''o''\<rparr>, demo_rt_pod],
     on_list_mckubes := \<lambda>_ _. Inr [demo_mckube None]\<rparr>"

theorem handleCPURecovery_lowers_witness:
  "let s = demo_sys\<lparr>podRuntimeState := [(''o'', ''hi''), (''p'', ''hi'')]\<rparr>;
     s' = snd (run_state (handleCPURecovery recovery_env ''worker'') s) in
   map_of (podRuntimeState s') ''p'' = Some ''low''"
proof -
  let ?s = "demo_sys\<lparr>podRuntimeState := [(''o'', ''hi''), (''p'', ''hi'')]\<rparr>"
  have p: "revertible recovery_env demo_rt_pod" "demo_rt_pod \<in> set (recovery_pods recovery_env ?s ''worker'')"
    "pod_Name demo_rt_pod = ''p''"
    by (simp_all add: revertible_def recovery_pods_def recovery_env_def find_mckube_def demo_mckube_def
        demo_rt_pod_def gm_str_def rt_label_def)
  have hi: "map_of (podRuntimeState ?s) ''p'' = Some ''hi''" by simp
  show ?thesis
    using handleCPURecovery_lowers [of recovery_env "''worker''" ?s] p hi
    unfolding Let_def runtime_state_hi by metis
qed

text \<open>
  C18: applying the settings of a pod with an address sends, in order, the requests for its started
  containers, with the runtime of the pod's state and the allocated core (else the spec's), up to and
  including the first one the daemon does not accept. Every request before the last one sent was
  accepted; it succeeds exactly when all were sent and accepted, and returns an error exactly when
  the last one sent was refused. It panics exactly when there is a started container, but neither an
  allocated core nor a core in the spec, after the first request: the log line after a request
  dereferences the core. Without an address nothing is sent.
\<close>

theorem applyRTSettingsToContainers_requests:
  assumes "RTSettings (Spec mk) = Some rts"
  shows "let (out, s') = run_state (applyRTSettingsToContainers E pod mk) s;
      reqs = map (apply_req mk rts (effectiveRuntime (runtime_state s (pod_Name pod)) rts))
        (started (ContainerStatuses pod));
      with_core = (AllocatedCore (Status mk) \<noteq> '''' \<or> Core rts \<noteq> None);
      accepted = accepted_at E (calls s) (HostIP pod) reqs in
    if HostIP pod = '''' then out = Returned (Some NoNodeIP) \<and> s' = s
    else (\<exists>k \<le> length reqs.
      s' = s\<lparr>calls := calls s @ map (post_to (HostIP pod)) (take k reqs)\<rparr> \<and>
      (\<forall>j. Suc j < k \<longrightarrow> accepted j) \<and>
      (case out of
         Returned None \<Rightarrow> k = length reqs \<and> (k = 0 \<or> with_core \<and> accepted (k - 1))
       | Returned (Some e) \<Rightarrow> with_core \<and> 0 < k \<and> \<not> accepted (k - 1)
       | Panicked \<Rightarrow> \<not> with_core \<and> k = 1
       | Diverged \<Rightarrow> False))"
proof (cases "HostIP pod = ''''")
  case True
  then show ?thesis using assms by (simp add: applyRTSettingsToContainers_def)
next
  case False
  let ?eff = "effectiveRuntime (runtime_state s (pod_Name pod)) rts"
  let ?reqs = "map (apply_req mk rts ?eff) (started (ContainerStatuses pod))"
  let ?has = "AllocatedCore (Status mk) \<noteq> '''' \<or> Core rts \<noteq> None"
  obtain k r where r:
    "run_state (for_until (apply_container E pod mk rts ?eff) (ContainerStatuses pod)) s =
      (r, s\<lparr>calls := calls s @ map (post_to (HostIP pod)) (take k ?reqs)\<rparr>)"
    "apply_ends E (calls s) (HostIP pod) (core_to_use mk rts \<noteq> None) ?reqs k
      (case r of None \<Rightarrow> Returned None | Some v \<Rightarrow> v)"
    using run_apply_all [of E pod mk rts ?eff "ContainerStatuses pod" s] unfolding Let_def
    by (metis prod.collapse)
  have run: "run_state (applyRTSettingsToContainers E pod mk) s =
      (case r of None \<Rightarrow> Returned None | Some v \<Rightarrow> v,
       s\<lparr>calls := calls s @ map (post_to (HostIP pod)) (take k ?reqs)\<rparr>)"
    using assms False r(1) by (simp add: applyRTSettingsToContainers_def)
  have core: "core_to_use mk rts \<noteq> None \<longleftrightarrow> ?has" by (auto simp: core_to_use_def)
  show ?thesis
    unfolding run Let_def prod.case if_not_P [OF False] using r(2) [unfolded core apply_ends_def] by blast
qed

text \<open>A pod with two containers: the daemon refuses the first request, so the second is not sent.\<close>

theorem applyRTSettingsToContainers_requests_witness:
  "let E = demo_env\<lparr>on_post := \<lambda>h _ _. Inr (if h = [] then 500 else 200)\<rparr>;
     pod = demo_rt_pod\<lparr>ContainerStatuses := [\<lparr>cs_Name = ''a'', cs_ContainerID = ''containerd://a''\<rparr>,
       \<lparr>cs_Name = ''b'', cs_ContainerID = ''containerd://b''\<rparr>]\<rparr>;
     (out, s') = run_state (applyRTSettingsToContainers E pod (demo_mckube (Some ''2''))) demo_sys in
   (\<exists>e. out = Returned (Some e)) \<and> length (calls s') = 1"
proof -
  let ?E = "demo_env\<lparr>on_post := \<lambda>h _ _. Inr (if h = [] then 500 else 200)\<rparr>"
  let ?a = "\<lparr>cs_Name = ''a'', cs_ContainerID = ''containerd://a''\<rparr>"
  let ?b = "\<lparr>cs_Name = ''b'', cs_ContainerID = ''containerd://b''\<rparr>"
  let ?pod = "demo_rt_pod\<lparr>ContainerStatuses := [?a, ?b]\<rparr>" and ?mk = "demo_mckube (Some ''2'')"
  let ?rts = "\<lparr>Period = 1000, RuntimeLow = 300, RuntimeHi = 500, Core = Some ''2''\<rparr>"
  define reqs where "reqs = map (apply_req ?mk ?rts (effectiveRuntime (runtime_state demo_sys (pod_Name ?pod)) ?rts))
    (started (ContainerStatuses ?pod))"
  have mk: "RTSettings (Spec ?mk) = Some ?rts" by (simp add: demo_mckube_def)
  have ip: "HostIP ?pod \<noteq> ''''" "calls demo_sys = []" by (simp_all add: demo_rt_pod_def demo_sys_def)
  have two: "length reqs = 2" by (simp add: reqs_def started_def)
  have refused: "\<not> accepted_at ?E [] (HostIP ?pod) reqs 0" by (simp add: accepted_at_def daemon_accepts_def)
  obtain out s' where run: "run_state (applyRTSettingsToContainers ?E ?pod ?mk) demo_sys = (out, s')"
    by (metis prod.exhaust)
  obtain k where k: "k \<le> length reqs" "s' = demo_sys\<lparr>calls := [] @ map (post_to (HostIP ?pod)) (take k reqs)\<rparr>"
    "\<forall>j. Suc j < k \<longrightarrow> accepted_at ?E [] (HostIP ?pod) reqs j"
    "case out of Returned None \<Rightarrow> k = length reqs | Returned (Some e) \<Rightarrow> 0 < k | Panicked \<Rightarrow> False | Diverged \<Rightarrow> False"
    using applyRTSettingsToContainers_requests [OF mk, of ?E ?pod demo_sys]
    unfolding run Let_def prod.case if_not_P [OF ip(1)] reqs_def [symmetric] ip(2)
    by (elim exE conjE) (cases out; simp split: option.splits)
  have "k < 2" using k(1,3) two refused by (cases "k = 2") auto
  then have "\<exists>e. out = Returned (Some e)" "k = 1" using k(4) two by (auto split: outcome.splits option.splits)
  then show ?thesis unfolding Let_def run prod.case using k(1,2) by simp
qed

end
