(* ===== verification/Preemption.thy ===== *)
theory Preemption
  imports Pressure Runtime_State Core_Set
begin

text \<open>
  Preemption and registration of pods on cores, from \<open>internal/controller/mckube_controller.go\<close>: the
  check before a pod is registered, the selection of victims, their migration or eviction, and the
  update of the node's CPU pool. The Go code holds a pointer to the node's pool; pools are never
  removed from the table, so the pool is addressed by the node's name here.
\<close>

section \<open>Victims\<close>

text \<open>\<open>criticalityRank\<close> of the controller has the same entries as the table of the event handler.\<close>

definition findPreemptionVictims ::
    "(string \<times> PodInfo) order \<Rightarrow> CPUPool \<Rightarrow> int \<Rightarrow> string \<Rightarrow> PodInfo list" where
  "findPreemptionVictims ord pool coreID preemptorCriticality =
     [pod \<leftarrow> getPodsOnCore ord pool coreID. rank_of preemptorCriticality > rank_of (pi_Criticality pod)]"

definition pool_at :: "sys \<Rightarrow> string \<Rightarrow> CPUPool" where
  "pool_at s n = (case map_of (cpuPools s) n of Some p \<Rightarrow> p | None \<Rightarrow> new_pool n 0)"

lemma pool_at_calls [simp]: "pool_at (s\<lparr>calls := c\<rparr>) n = pool_at s n"
  by (simp add: pool_at_def)

definition update_pool :: "string \<Rightarrow> (CPUPool \<Rightarrow> CPUPool) \<Rightarrow> unit act" where
  "update_pool n f = State_Monad.update (\<lambda>s. s\<lparr>cpuPools :=
     (case map_of (cpuPools s) n of None \<Rightarrow> cpuPools s | Some p \<Rightarrow> gm_put n (f p) (cpuPools s))\<rparr>)"

section \<open>Moving a victim\<close>

definition send_core ::
    "env \<Rightarrow> Pod \<Rightarrow> RTSettings \<Rightarrow> string \<Rightarrow> ContainerStatus \<Rightarrow> unit act" where
  "send_core E pod rts newCoreStr cs =
     (if cs_ContainerID cs = '''' then State_Monad.return ()
      else do {
        _ \<leftarrow> SendRTRequest E (HostIP pod)
          \<lparr>req_ContainerID = cs_ContainerID cs, req_Period = Period rts, req_Runtime = RuntimeLow rts,
           req_Core = Some newCoreStr\<rparr>;
        State_Monad.return ()
      })"

text \<open>
  The answer to the status update is decoded into the same object, so settings it does not carry keep
  their old value.
\<close>

definition updatePodCoreAffinity :: "env \<Rightarrow> Pod \<Rightarrow> int \<Rightarrow> go_error option act" where
  "updatePodCoreAffinity E pod newCore = do {
     l \<leftarrow> list_mckubes E (pod_Namespace pod);
     case l of Inl e \<Rightarrow> State_Monad.return (Some (ListMcKubeFailed e)) | Inr items \<Rightarrow>
       (case find_mckube (pod_Name pod) items of None \<Rightarrow> State_Monad.return None | Some mk \<Rightarrow>
         (case RTSettings (Spec mk) of None \<Rightarrow> State_Monad.return None | Some rts \<Rightarrow> do {
           r \<leftarrow> status_update E (mk\<lparr>Status := (Status mk)\<lparr>AllocatedCore := show_int newCore\<rparr>\<rparr>);
           case r of Inl e \<Rightarrow> State_Monad.return (Some (StatusUpdateFailed e)) | Inr mk' \<Rightarrow>
             (if HostIP pod = '''' then State_Monad.return (Some NoNodeIP)
              else do {
                for_each (send_core E pod (case RTSettings (Spec mk') of Some r \<Rightarrow> r | None \<Rightarrow> rts)
                  (show_int newCore)) (ContainerStatuses pod);
                State_Monad.return None
              })
         }))
   }"

definition preemptPod :: "env \<Rightarrow> PodInfo \<Rightarrow> string \<Rightarrow> int \<Rightarrow> go_error option act" where
  "preemptPod E victim nodeName currentCore = do {
     r \<leftarrow> get_pod E (pi_Namespace victim) (pi_Name victim);
     case r of Inl e \<Rightarrow> State_Monad.return (Some (GetVictimFailed e)) | Inr pod \<Rightarrow> do {
       update_pool nodeName (removePodFromCore currentCore (pi_Name victim));
       ord \<leftarrow> range_over (on_range_cores E);
       s \<leftarrow> State_Monad.get;
       let newCore = findLeastLoadedCore ord (pool_at s nodeName);
       if utilization_after (getCoreUtilization (pool_at s nodeName) newCore) (CPUMillis victim)
          \<le> coreUtilizationThreshold then do {
         update_pool nodeName (addPodToCore newCore victim);
         updatePodCoreAffinity E pod newCore
       }
       else do { (e, _) \<leftarrow> EvictPod E pod; State_Monad.return e }
     }
   }"

definition check_core :: "env \<Rightarrow> string \<Rightarrow> int64 \<Rightarrow> string \<Rightarrow> int \<Rightarrow> unit act" where
  "check_core E nodeName cpuMillis criticality coreID = do {
     s \<leftarrow> State_Monad.get;
     if utilization_after (getCoreUtilization (pool_at s nodeName) coreID) cpuMillis > coreUtilizationThreshold
     then do {
       ord \<leftarrow> range_over (on_range_pods E);
       for_each (\<lambda>victim. do { _ \<leftarrow> preemptPod E victim nodeName coreID; State_Monad.return () })
         (findPreemptionVictims ord (pool_at s nodeName) coreID criticality)
     }
     else State_Monad.return ()
   }"

definition checkAndPreemptForPod ::
    "env \<Rightarrow> Pod \<Rightarrow> int list \<Rightarrow> int64 \<Rightarrow> string \<Rightarrow> go_error option act" where
  "checkAndPreemptForPod E pod targetCores cpuMillis criticality =
     (if NodeName pod = '''' then State_Monad.return (Some NoAssignedNode)
      else do {
        s \<leftarrow> State_Monad.get;
        if map_of (cpuPools s) (NodeName pod) = None then State_Monad.return None
        else do {
          for_each (check_core E (NodeName pod) cpuMillis criticality) targetCores;
          State_Monad.return None
        }
      })"

section \<open>Registering a pod\<close>

definition same_registration :: "CPUPool \<Rightarrow> string \<Rightarrow> int64 \<Rightarrow> string \<Rightarrow> int \<Rightarrow> bool" where
  "same_registration pool podName cpuMillis criticality coreID =
     (case map_of (Cores pool) coreID of
        None \<Rightarrow> False
      | Some core \<Rightarrow>
          (case map_of (Pods core) podName of
             None \<Rightarrow> False
           | Some existing \<Rightarrow> CPUMillis existing = cpuMillis \<and> pi_Criticality existing = criticality))"

definition register_pod :: "PodInfo \<Rightarrow> CPUPool \<Rightarrow> CPUPool" where
  "register_pod info pool =
     (if list_all (same_registration pool (pi_Name info) (CPUMillis info) (pi_Criticality info)) (CoreSet info)
      then pool
      else foldl (\<lambda>p i. addPodToCore i info (removePodFromCore i (pi_Name info) p)) pool (CoreSet info))"

definition updateCPUPoolForPod :: "Pod \<Rightarrow> McKube \<Rightarrow> go_error option outcome act" where
  "updateCPUPoolForPod pod mk =
     (case RTSettings (Spec mk) of
        None \<Rightarrow> State_Monad.return (Returned None)
      | Some rts \<Rightarrow>
          (case Core rts of
             None \<Rightarrow> State_Monad.return (Returned None)
           | Some coreStr \<Rightarrow>
               if NodeName pod = '''' then State_Monad.return (Returned (Some NoAssignedNode))
               else do {
                 State_Monad.update (\<lambda>s. s\<lparr>cpuPools := snd (getOrCreateCPUPool (NodeName pod) 8 (cpuPools s))\<rparr>);
                 s \<leftarrow> State_Monad.get;
                 case parseCoreSet coreStr of
                   None \<Rightarrow> State_Monad.return Diverged
                 | Some cores \<Rightarrow> do {
                     update_pool (NodeName pod) (register_pod
                       \<lparr>pi_Name = pod_Name pod, pi_Namespace = pod_Namespace pod,
                        pi_Criticality = Criticality (Spec mk),
                        CPUMillis = rt_cpuMillis (effectiveRuntime (runtime_state s (pod_Name pod)) rts) (Period rts),
                        CoreSet = cores\<rparr>);
                     State_Monad.return (Returned None)
                   }
               }))"

section \<open>What preemption may touch\<close>

definition pools_ok :: "sys \<Rightarrow> bool" where
  "pools_ok s \<longleftrightarrow> gm_ok (cpuPools s) \<and> (\<forall>n p. map_of (cpuPools s) n = Some p \<longrightarrow> pool_ok p)"

lemma pool_ok_at: "pools_ok s \<Longrightarrow> pool_ok (pool_at s n)"
  by (auto simp: pools_ok_def pool_at_def pool_ok_new split: option.split)

text \<open>
  The frame of preemption on node \<open>n\<close>: pools stay well formed, other nodes' pools and the other
  tables do not change, no core appears or disappears, and registrations of pods whose name is not in
  \<open>V\<close> stay as they are.
\<close>

definition touches :: "string \<Rightarrow> string set \<Rightarrow> sys \<Rightarrow> sys \<Rightarrow> bool" where
  "touches n V s t \<longleftrightarrow> (pools_ok s \<longrightarrow> pools_ok t) \<and>
     (\<forall>m. (map_of (cpuPools t) m = None) = (map_of (cpuPools s) m = None)) \<and>
     (\<forall>m. m \<noteq> n \<longrightarrow> map_of (cpuPools t) m = map_of (cpuPools s) m) \<and>
     (\<forall>name i. name \<notin> V \<longrightarrow> registered (pool_at t n) i name = registered (pool_at s n) i name) \<and>
     (\<forall>i. has_core (pool_at t n) i = has_core (pool_at s n) i) \<and>
     podRuntimeState t = podRuntimeState s \<and> lastCpuBusyState t = lastCpuBusyState s \<and>
     PressureState t = PressureState s \<and> ProcessingNodes t = ProcessingNodes s \<and> Timers t = Timers s"

lemma touches_trans: "touches n V s t \<Longrightarrow> touches n V t u \<Longrightarrow> touches n V s u"
  unfolding touches_def by (intro conjI) simp_all

interpretation touches: call_frame "touches n V" for n V
proof unfold_locales
  fix s t u :: sys
  assume "touches n V s t" "touches n V t u"
  then show "touches n V s u" by (rule touches_trans)
qed (simp_all add: touches_def pools_ok_def pool_at_def)

lemma only_calls_touches: "only_calls s t \<Longrightarrow> touches n V s t"
  by (auto simp: only_calls_def touches_def pools_ok_def pool_at_def)

lemma pool_at_update_pool:
  "pool_at (snd (run_state (update_pool n f) s)) n =
   (if map_of (cpuPools s) n = None then pool_at s n else f (pool_at s n))"
  by (auto simp: update_pool_def pool_at_def split: option.split)

lemma touches_update_pool:
  assumes "\<And>p. pool_ok p \<Longrightarrow> pool_ok (f p)"
    and "\<And>p name i. name \<notin> V \<Longrightarrow> registered (f p) i name = registered p i name"
    and "\<And>p i. has_core (f p) i = has_core p i"
  shows "touches.keeps n V (update_pool n f)"
proof (rule touches.keepsI)
  fix s
  show "touches n V s (snd (run_state (update_pool n f) s))"
    using assms unfolding touches_def pool_at_update_pool
    by (auto simp: update_pool_def pools_ok_def split: option.splits)
qed

lemma touches_move:
  assumes "pi_Name v \<in> V"
  shows "touches.keeps n V (update_pool n (removePodFromCore i (pi_Name v)))"
    and "touches.keeps n V (update_pool n (addPodToCore i v))"
  using assms
  by (auto intro!: touches_update_pool pool_ok_remove pool_ok_add simp: registered_remove registered_add)

lemma keeps_send_core: "only_calls.keeps (send_core E pod rts c cs)"
  by (auto simp: send_core_def intro!: only_calls.keeps_bind only_calls.keeps_return only_calls.keeps_send)

lemma keeps_affinity: "only_calls.keeps (updatePodCoreAffinity E pod c)"
  unfolding updatePodCoreAffinity_def
  by (auto split: sum.split option.split
      intro!: only_calls.keeps_bind only_calls.keeps_calls only_calls.keeps_return
        only_calls.keeps_for_each keeps_send_core)

lemma touches_only_calls: "only_calls.keeps m \<Longrightarrow> touches.keeps n V m"
  by (auto simp: state_io_rel_def intro: only_calls_touches)

lemma touches_preemptPod:
  assumes "pi_Name v \<in> V"
  shows "touches.keeps n V (preemptPod E v n c)"
  unfolding preemptPod_def Let_def
  by (intro touches.keeps_bind touches.keeps_calls)
    (auto split: sum.split prod.split
      intro!: touches.keeps_bind touches.keeps_calls touches.keeps_get touches.keeps_return touches_move assms
        touches_only_calls [OF keeps_affinity] touches_only_calls [OF only_calls.keeps_evict])

text \<open>The pods of a node that a criticality outranks, and that they are the only ones touched.\<close>

definition weaker :: "sys \<Rightarrow> string \<Rightarrow> string \<Rightarrow> string set" where
  "weaker s n crit = {name. \<exists>i v. registered (pool_at s n) i name = Some v \<and>
     rank_of (pi_Criticality v) < rank_of crit}"

lemma weaker_touches: "touches n V s t \<Longrightarrow> weaker s n crit \<subseteq> V \<Longrightarrow> weaker t n crit \<subseteq> V"
proof
  fix name
  assume t: "touches n V s t" and V: "weaker s n crit \<subseteq> V" and w: "name \<in> weaker t n crit"
  show "name \<in> V"
  proof (rule ccontr)
    assume out: "name \<notin> V"
    have "registered (pool_at t n) i name = registered (pool_at s n) i name" for i
      using t out unfolding touches_def by blast
    then have "name \<in> weaker s n crit" using w by (simp add: weaker_def)
    then show False using V out by blast
  qed
qed

lemma victim_weaker:
  assumes "pools_ok s" and "is_order ord" and "v \<in> set (findPreemptionVictims ord (pool_at s n) c crit)"
  shows "registered (pool_at s n) c (pi_Name v) = Some v" and "rank_of (pi_Criticality v) < rank_of crit"
proof -
  show "rank_of (pi_Criticality v) < rank_of crit" using assms(3) by (simp add: findPreemptionVictims_def)
  have "v \<in> snd ` set (pods_on (pool_at s n) c)"
    using assms(3) set_order [OF assms(2)]
    by (auto simp: findPreemptionVictims_def getPodsOnCore_def pods_on_def split: option.splits)
  then obtain name where "(name, v) \<in> set (pods_on (pool_at s n) c)" by auto
  then have r: "registered (pool_at s n) c name = Some v"
    using pool_ok_pods [OF pool_ok_at [OF assms(1)], of n c]
    by (simp add: registered_def map_of_eq_Some_iff)
  then show "registered (pool_at s n) c (pi_Name v) = Some v"
    using registered_name [OF pool_ok_at [OF assms(1)]] by fastforce
qed

lemma touches_check_core:
  assumes "pools_ok s" and "env_orders E" and "weaker s n crit \<subseteq> V"
  shows "touches n V s (snd (run_state (check_core E n cpu crit c) s))"
proof (cases "utilization_after (getCoreUtilization (pool_at s n) c) cpu > coreUtilizationThreshold")
  case False
  then show ?thesis by (simp add: check_core_def touches.R_refl)
next
  case True
  let ?ord = "on_range_pods E (calls s)"
  let ?vs = "findPreemptionVictims ?ord (pool_at s n) c crit"
  let ?loop = "for_each (\<lambda>v. State_Monad.bind (preemptPod E v n c) (\<lambda>_. State_Monad.return ())) ?vs"
  have ord: "is_order ?ord" using assms(2) by (simp add: env_orders_def)
  have V: "pi_Name v \<in> V" if "v \<in> set ?vs" for v
    using victim_weaker [OF assms(1) ord that] assms(3) by (auto simp: weaker_def)
  have "touches.keeps n V ?loop"
    by (intro touches.keeps_for_each touches.keeps_bind touches.keeps_return touches_preemptPod V)
  from touches.keepsD [OF this, of "s\<lparr>calls := calls s @ [RangeMap]\<rparr>"]
  show ?thesis
    using True touches.R_trans [OF touches.R_calls] by (simp add: check_core_def range_over_def)
qed

lemma touches_check_cores:
  assumes "pools_ok s" and "env_orders E" and "weaker s n crit \<subseteq> V"
  shows "touches n V s (snd (run_state (for_each (check_core E n cpu crit) cs) s))"
  using assms(1,3)
proof (induction cs arbitrary: s)
  case (Cons c cs)
  let ?s1 = "snd (run_state (check_core E n cpu crit c) s)"
  have 1: "touches n V s ?s1" using Cons.prems assms(2) by (intro touches_check_core)
  have "pools_ok ?s1" "weaker ?s1 n crit \<subseteq> V"
    using 1 Cons.prems weaker_touches [OF 1] by (auto simp: touches_def)
  from Cons.IH [OF this] show ?case
    using touches.R_trans [OF 1] by (simp add: case_prod_beta')
qed (simp add: touches.R_refl)

lemma touches_checkAndPreempt:
  assumes "pools_ok s" and "env_orders E"
  shows "touches (NodeName pod) (weaker s (NodeName pod) crit) s
    (snd (run_state (checkAndPreemptForPod E pod cs cpu crit) s))"
  using touches_check_cores [OF assms subset_refl, of "NodeName pod" crit cpu cs]
  by (simp add: checkAndPreemptForPod_def case_prod_beta' touches.R_refl)

section \<open>The load of the core a victim moves to\<close>

lemma pools_only_calls: "only_calls s t \<Longrightarrow> cpuPools t = cpuPools s"
  by (auto simp: only_calls_def)

lemma pool_at_only_calls:
  assumes "only_calls.keeps m"
  shows "pool_at (snd (run_state m s)) n = pool_at s n"
  using pools_only_calls [OF only_calls.keepsD [OF assms, of s]] by (simp add: pool_at_def)

text \<open>What preempting a victim does to the pool of the node, as an equation.\<close>

lemma pool_preemptPod:
  fixes s :: sys and n :: string and c :: int and v :: PodInfo and E :: env
  assumes "map_of (cpuPools s) n \<noteq> None"
  defines "p \<equiv> pool_at s n"
  defines "q \<equiv> removePodFromCore c (pi_Name v) p"
  defines "new \<equiv> findLeastLoadedCore (on_range_cores E (calls s @ [GetPod (pi_Namespace v) (pi_Name v)])) q"
  shows "pool_at (snd (run_state (preemptPod E v n c) s)) n =
    (case on_get_pod E (calls s) (pi_Namespace v) (pi_Name v) of
       Inl e \<Rightarrow> p
     | Inr pod \<Rightarrow>
         if utilization_after (getCoreUtilization q new) (CPUMillis v) \<le> coreUtilizationThreshold
         then addPodToCore new v q else q)"
proof (cases "on_get_pod E (calls s) (pi_Namespace v) (pi_Name v)")
  case (Inl e)
  then show ?thesis by (simp add: preemptPod_def get_pod_def p_def pool_at_def)
next
  case (Inr pod)
  let ?s1 = "s\<lparr>calls := calls s @ [GetPod (pi_Namespace v) (pi_Name v)]\<rparr>"
  define s2 where "s2 = snd (run_state (update_pool n (removePodFromCore c (pi_Name v))) ?s1)"
  have s2: "pool_at s2 n = q" "map_of (cpuPools s2) n \<noteq> None"
    "calls s2 = calls s @ [GetPod (pi_Namespace v) (pi_Name v)]"
    using assms(1) unfolding s2_def pool_at_update_pool
    by (auto simp: q_def p_def pool_at_def update_pool_def split: option.split)
  define s3 where "s3 = s2\<lparr>calls := calls s2 @ [RangeMap]\<rparr>"
  have s3: "pool_at s3 n = q" "map_of (cpuPools s3) n \<noteq> None" using s2 by (simp_all add: s3_def pool_at_def)
  let ?fits = "utilization_after (getCoreUtilization q new) (CPUMillis v) \<le> coreUtilizationThreshold"
  have run: "snd (run_state (preemptPod E v n c) s) =
      (if ?fits then snd (run_state (updatePodCoreAffinity E pod new)
            (snd (run_state (update_pool n (addPodToCore new v)) s3)))
       else snd (run_state (EvictPod E pod) s3))"
    using Inr s2(1,3)
    by (simp add: preemptPod_def get_pod_def range_over_def s2_def [symmetric] s3_def
        case_prod_beta' Let_def new_def)

  have "pool_at (snd (run_state (update_pool n (addPodToCore new v)) s3)) n = addPodToCore new v q"
    using s3 by (auto simp: pool_at_update_pool)
  then show ?thesis
    unfolding run using Inr s3(1)
    by (simp add: pool_at_only_calls keeps_affinity only_calls.keeps_evict)
qed

lemma sint_add_small:
  "0 \<le> sint (a :: int64) \<Longrightarrow> 0 \<le> sint b \<Longrightarrow> sint a + sint b < 2 ^ 63 \<Longrightarrow> sint (a + b) = sint a + sint b"
  by (simp add: sint_word_ariths signed_take_bit_int_eq_self)

lemma sint_diff_small:
  "0 \<le> sint (b :: int64) \<Longrightarrow> sint b \<le> sint a \<Longrightarrow> sint (a - b) = sint a - sint b"
  using sint64_lt [of a] by (simp add: sint_word_ariths signed_take_bit_int_eq_self)

section \<open>Properties\<close>

text \<open>
  C3: the victims for a preemptor are exactly the pods registered on the core whose criticality ranks
  strictly below the preemptor's, whatever the order of the map: a pod is never a victim of one of its
  own rank, and a pod of criticality \<open>"High"\<close> is never a victim.
\<close>

theorem findPreemptionVictims_exact:
  assumes "pool_ok p" and "is_order ord"
  shows "v \<in> set (findPreemptionVictims ord p c crit) \<longleftrightarrow>
    registered p c (pi_Name v) = Some v \<and> rank_of (pi_Criticality v) < rank_of crit \<and>
    pi_Criticality v \<noteq> ''High''"
proof -
  have vals: "v \<in> snd ` set (pods_on p c) \<longleftrightarrow> registered p c (pi_Name v) = Some v"
  proof -
    have "v \<in> snd ` set (pods_on p c) \<longleftrightarrow> (\<exists>name. registered p c name = Some v)"
      using map_of_eq_Some_iff [OF pool_ok_pods [OF assms(1), of c]] by (force simp: registered_def)
    then show ?thesis using registered_name [OF assms(1)] by blast
  qed
  have "set (getPodsOnCore ord p c) = snd ` set (pods_on p c)"
    using set_order [OF assms(2)] by (auto simp: getPodsOnCore_def pods_on_def split: option.split)
  then show ?thesis
    using vals rank_bounds [of crit] by (auto simp: findPreemptionVictims_def)
qed

theorem findPreemptionVictims_exact_witness:
  "demo_pod ''low'' ''Low'' 350 [2] \<in>
    set (findPreemptionVictims rev (addPodToCore 2 (demo_pod ''low'' ''Low'' 350 [2]) (new_pool ''worker'' 8)) 2 ''High'')"
proof -
  let ?v = "demo_pod ''low'' ''Low'' 350 [2]" and ?n = "new_pool ''worker'' 8"
  have "registered (addPodToCore 2 ?v ?n) 2 (pi_Name ?v) = Some ?v"
    by (simp add: registered_add has_core_def new_pool_cores)
  then show ?thesis
    by (subst findPreemptionVictims_exact) (simp_all add: pool_ok_add pool_ok_new is_order_def demo_pod_def)
qed

text \<open>
  C2: preempting for a pod never touches a pod of the same or higher criticality: every registration,
  on any core, of a name that has no registration ranked below the preemptor stays as it was; no core
  is added or lost, the pools of other nodes and the five other tables are unchanged, and all pools
  stay well formed. This holds whatever the API server and the daemons answer and in whatever order
  a range visits a map, provided it visits every entry once.
\<close>

theorem checkAndPreemptForPod_protects:
  assumes "pools_ok s" and "env_orders E"
  shows "let n = NodeName pod; s' = snd (run_state (checkAndPreemptForPod E pod cs cpu crit) s) in
    pools_ok s' \<and>
    (\<forall>name i. name \<notin> weaker s n crit \<longrightarrow> registered (pool_at s' n) i name = registered (pool_at s n) i name) \<and>
    (\<forall>i. has_core (pool_at s' n) i = has_core (pool_at s n) i) \<and>
    (\<forall>m. m \<noteq> n \<longrightarrow> map_of (cpuPools s') m = map_of (cpuPools s) m) \<and>
    (\<forall>m. map_of (cpuPools s) m = None \<longrightarrow> map_of (cpuPools s') m = None) \<and>
    podRuntimeState s' = podRuntimeState s \<and> PressureState s' = PressureState s \<and>
    lastCpuBusyState s' = lastCpuBusyState s \<and> ProcessingNodes s' = ProcessingNodes s \<and>
    Timers s' = Timers s"
  using touches_checkAndPreempt [OF assms, of pod crit cs cpu] assms(1)
  unfolding touches_def Let_def by blast

lemma pools_ok_demo: "pools_ok demo_sys"
  by (simp add: pools_ok_def demo_sys_def)

text \<open>
  The example: on core 2 of a node a pod of criticality \<open>"Low"\<close> has 500 millicores and one of
  criticality \<open>"Middle"\<close> 350, and a pod of criticality \<open>"Middle"\<close> with 350 millicores is to come. The
  low pod moves to core 0, the other one stays.
\<close>

definition demo_shared_pool :: CPUPool where
  "demo_shared_pool = addPodToCore 2 (demo_pod ''mid'' ''Middle'' 350 [2])
     (addPodToCore 2 (demo_pod ''low'' ''Low'' 500 [2]) (new_pool ''worker'' 8))"

definition demo_shared_sys :: sys where
  "demo_shared_sys = demo_sys\<lparr>cpuPools := [(''worker'', demo_shared_pool)]\<rparr>"

definition demo_move_env :: env where
  "demo_move_env = demo_env\<lparr>on_get_pod := \<lambda>_ _ _. Inr demo_rt_pod\<rparr>"

lemma pool_at_demo_shared: "pool_at demo_shared_sys ''worker'' = demo_shared_pool"
  by (simp add: pool_at_def demo_shared_sys_def)

lemma demo_shared_moved:
  "pool_at (snd (run_state (checkAndPreemptForPod demo_move_env demo_rt_pod [2] 350 ''Middle'') demo_shared_sys))
     ''worker'' = addPodToCore 0 (demo_pod ''low'' ''Low'' 500 [2]) (removePodFromCore 2 ''low'' demo_shared_pool)"
proof -
  let ?E = demo_move_env and ?low = "demo_pod ''low'' ''Low'' 500 [2]"
  let ?s1 = "demo_shared_sys\<lparr>calls := calls demo_shared_sys @ [RangeMap]\<rparr>"
  let ?q = "removePodFromCore 2 ''low'' demo_shared_pool"
  have node: "NodeName demo_rt_pod = ''worker''" "map_of (cpuPools demo_shared_sys) ''worker'' = Some demo_shared_pool"
    by (simp_all add: demo_rt_pod_def demo_shared_sys_def)
  have E: "on_range_pods ?E h = (\<lambda>xs. xs)" "on_range_cores ?E h = (\<lambda>xs. xs)"
    "on_get_pod ?E h a b = Inr demo_rt_pod" for h a b
    by (simp_all add: demo_move_env_def demo_env_def)
  have u: "usage demo_shared_pool 2 = 850" "usage ?q 0 = 0" by code_simp+
  have full: "utilization_after (getCoreUtilization demo_shared_pool 2) 350 > coreUtilizationThreshold"
    using threshold_gt [of demo_shared_pool 2 350] u by simp
  have fits: "utilization_after (getCoreUtilization ?q 0) (CPUMillis ?low) \<le> coreUtilizationThreshold"
    using threshold_le [of ?q 0 "CPUMillis ?low"] u by (simp add: demo_pod_def)
  have victims: "findPreemptionVictims (\<lambda>xs. xs) demo_shared_pool 2 ''Middle'' = [?low]" by code_simp
  have new: "findLeastLoadedCore (\<lambda>xs. xs) ?q = 0" by code_simp
  have one: "pool_at (snd (run_state (preemptPod ?E ?low ''worker'' 2) ?s1)) ''worker'' = addPodToCore 0 ?low ?q"
    using pool_preemptPod [of ?s1 "''worker''" ?E ?low 2] node fits
    by (simp add: E new pool_at_demo_shared) (simp add: demo_pod_def new)
  show ?thesis
    using node full one
    by (simp add: checkAndPreemptForPod_def check_core_def range_over_def pool_at_demo_shared E victims
        case_prod_beta')
qed

theorem checkAndPreemptForPod_protects_witness:
  "let mid = demo_pod ''mid'' ''Middle'' 350 [2]; low = demo_pod ''low'' ''Low'' 500 [2];
     s' = snd (run_state (checkAndPreemptForPod demo_move_env demo_rt_pod [2] 350 ''Middle'') demo_shared_sys) in
   pools_ok s' \<and> registered (pool_at s' ''worker'') 2 ''mid'' = Some mid \<and>
   registered (pool_at s' ''worker'') 2 ''low'' = None \<and> registered (pool_at s' ''worker'') 0 ''low'' = Some low"
proof -
  let ?mid = "demo_pod ''mid'' ''Middle'' 350 [2]" and ?low = "demo_pod ''low'' ''Low'' 500 [2]"
  have core: "has_core (new_pool ''worker'' 8) 2" "has_core (new_pool ''worker'' 8) 0"
    by (simp_all add: has_core_def new_pool_cores)
  have empty: "registered (new_pool ''worker'' 8) i name = None" for i name
    by (auto simp: pool_defs new_pool_cores split: option.split)
  have reg: "registered demo_shared_pool i name = (if i = 2 \<and> name = ''mid'' then Some ?mid
      else if i = 2 \<and> name = ''low'' then Some ?low else None)" for i name
    using core by (simp add: demo_shared_pool_def registered_add empty demo_pod_def)
  have "''mid'' \<notin> weaker demo_shared_sys ''worker'' ''Middle''"
    by (auto simp: weaker_def pool_at_demo_shared reg demo_pod_def split: if_splits)
  moreover have "pools_ok demo_shared_sys"
    by (simp add: pools_ok_def demo_shared_sys_def demo_sys_def demo_shared_pool_def pool_ok_add pool_ok_new)
  moreover have "env_orders demo_move_env"
    using env_orders_demo by (simp add: env_orders_def demo_move_env_def)
  moreover have "NodeName demo_rt_pod = ''worker''" by (simp add: demo_rt_pod_def)
  ultimately show ?thesis
    using checkAndPreemptForPod_protects [of demo_shared_sys demo_move_env demo_rt_pod "[2]" 350 "''Middle''"]
    unfolding Let_def demo_shared_moved pool_at_demo_shared
    using core by (simp add: reg registered_add registered_remove demo_pod_def demo_shared_pool_def)
qed

text \<open>
  C4: preempting a registered victim never loads a core beyond 900 millicores that was not already
  so loaded: afterwards every core's usage is at most its old usage or at most 900. Usages are taken
  between 0 and 2 to the 52, and the victim's share between 0 and the usage of its core.
\<close>

theorem preemptPod_load:
  assumes "map_of (cpuPools s) n \<noteq> None"
    and "registered (pool_at s n) c (pi_Name v) = Some v"
    and "0 \<le> sint (CPUMillis v)" "sint (CPUMillis v) \<le> sint (usage (pool_at s n) c)"
    and "\<forall>i. 0 \<le> sint (usage (pool_at s n) i) \<and> sint (usage (pool_at s n) i) \<le> 2 ^ 52"
  shows "sint (usage (pool_at (snd (run_state (preemptPod E v n c) s)) n) i) \<le>
    max 900 (sint (usage (pool_at s n) i))"
proof -
  define p where "p = pool_at s n"
  define q where "q = removePodFromCore c (pi_Name v) p"
  define new where
    "new = findLeastLoadedCore (on_range_cores E (calls s @ [GetPod (pi_Namespace v) (pi_Name v)])) q"
  note pool = pool_preemptPod [OF assms(1), of E v c, folded p_def, folded q_def, folded new_def]
  have u: "0 \<le> sint (usage p j)" "sint (usage p j) \<le> 2 ^ 52" for j using assms(5) by (simp_all add: p_def)
  have v: "0 \<le> sint (CPUMillis v)" "sint (CPUMillis v) \<le> 2 ^ 52" "sint (CPUMillis v) \<le> sint (usage p c)"
    using assms(3,4) u(2) [of c] by (simp_all add: p_def)
  have "usage q j = usage p j - (if j = c then CPUMillis v else 0)" for j
    using assms(2) by (simp add: q_def usage_remove cpu_of_def p_def)
  then have q: "0 \<le> sint (usage q j)" "sint (usage q j) \<le> sint (usage p j)" for j
    using sint_diff_small [OF v(1,3)] v u [of j] by auto
  have add: "sint (usage (addPodToCore new v q) i) \<le> max 900 (sint (usage p i))"
    if fits: "utilization_after (getCoreUtilization q new) (CPUMillis v) \<le> coreUtilizationThreshold"
  proof (cases "has_core q new \<and> i = new")
    case True
    have "sint (usage q new) + sint (CPUMillis v) \<le> 900"
    proof (rule ccontr)
      assume "\<not> ?thesis"
      then show False using threshold_gt [of q new "CPUMillis v"] fits q [of new] u [of new] v by simp
    qed
    then show ?thesis using True q [of new] v sint_add_small [of "usage q new" "CPUMillis v"]
      by (simp add: usage_add)
  next
    case False
    then show ?thesis using q [of i] by (auto simp: usage_add)
  qed
  show ?thesis
    unfolding pool p_def [symmetric] using add q [of i] by (auto split: sum.split)
qed

theorem preemptPod_load_witness:
  "let v = demo_pod ''low'' ''Low'' 350 [2]; p = addPodToCore 2 v (new_pool ''worker'' 8);
     s = demo_sys\<lparr>cpuPools := [(''worker'', p)]\<rparr> in
   sint (usage (pool_at (snd (run_state (preemptPod demo_env v ''worker'' 2) s)) ''worker'') 2) \<le> 900"
proof -
  let ?v = "demo_pod ''low'' ''Low'' 350 [2]"
  let ?p = "addPodToCore 2 ?v (new_pool ''worker'' 8)"
  let ?s = "demo_sys\<lparr>cpuPools := [(''worker'', ?p)]\<rparr>"
  have p: "pool_at ?s ''worker'' = ?p" by (simp add: pool_at_def)
  have h: "has_core (new_pool ''worker'' 8) 2" by (simp add: has_core_def new_pool_cores)
  have z: "usage (new_pool ''worker'' 8) i = 0" for i by (auto simp: usage_def new_pool_cores)
  have u: "usage ?p i = (if i = 2 then 350 else 0)" for i
    using h by (simp add: usage_add z demo_pod_def)
  have r: "registered ?p 2 (pi_Name ?v) = Some ?v" using h by (simp add: registered_add)
  have "sint (usage (pool_at (snd (run_state (preemptPod demo_env ?v ''worker'' 2) ?s)) ''worker'') 2)
      \<le> max 900 (sint (usage (pool_at ?s ''worker'') 2))"
    by (rule preemptPod_load) (simp_all only: p r u, simp_all add: demo_pod_def)
  then show ?thesis unfolding Let_def p u by simp
qed

text \<open>
  C21: migration does not release the victim's other cores. When the core chosen for a victim already
  has a registration of it, which happens to a victim with several cores, the migration adds its load
  a second time: a core that was in balance records more than its pods add up to.
\<close>

theorem preemptPod_double_count:
  assumes "pools_ok s" and "map_of (cpuPools s) n \<noteq> None"
    and "on_get_pod E (calls s) (pi_Namespace v) (pi_Name v) = Inr pod"
    and "q = removePodFromCore c (pi_Name v) (pool_at s n)"
    and "new = findLeastLoadedCore (on_range_cores E (calls s @ [GetPod (pi_Namespace v) (pi_Name v)])) q"
    and "utilization_after (getCoreUtilization q new) (CPUMillis v) \<le> coreUtilizationThreshold"
    and "new \<noteq> c" and "has_core (pool_at s n) new" and "registered (pool_at s n) new (pi_Name v) = Some old"
    and "usage (pool_at s n) new = booked (pool_at s n) new"
  shows "let p' = pool_at (snd (run_state (preemptPod E v n c) s)) n in usage p' new = booked p' new + CPUMillis old"
proof -
  let ?p = "pool_at s n"
  have ok: "pool_ok ?p" using assms(1) by (rule pool_ok_at)
  have p': "pool_at (snd (run_state (preemptPod E v n c) s)) n = addPodToCore new v q"
    using pool_preemptPod [OF assms(2), of E v c] assms(3,6) unfolding assms(4,5) by simp
  have q: "pool_ok q" "has_core q new" "registered q new (pi_Name v) = Some old"
    using ok assms(7-9) by (simp_all add: assms(4) pool_ok_remove registered_remove)
  have "usage q new - booked q new = usage ?p new - booked ?p new"
    unfolding assms(4) by (rule pool.drift_remove [OF ok])
  then have "usage (addPodToCore new v q) new - booked (addPodToCore new v q) new = CPUMillis old"
    using q assms(10) by (simp add: pool.drift_add cpu_of_def)
  then show ?thesis unfolding p' Let_def by (simp add: algebra_simps)
qed

text \<open>A node on which a low pod holds cores 2 and 3, and every other core is busier than core 3.\<close>

definition demo_busy_pool :: CPUPool where
  "demo_busy_pool = (let low = demo_pod ''low'' ''Low'' 350 [2, 3] in
     addPodToCore 3 low (addPodToCore 2 low
       (foldl (\<lambda>p i. addPodToCore i (demo_pod ''busy'' ''High'' 500 [i]) p) (new_pool ''worker'' 8)
         [0, 1, 2, 4, 5, 6, 7])))"

theorem preemptPod_double_count_witness:
  "let v = demo_pod ''low'' ''Low'' 350 [2, 3];
     E = demo_env\<lparr>on_get_pod := \<lambda>_ _ _. Inr demo_rt_pod\<rparr>;
     s = demo_sys\<lparr>cpuPools := [(''worker'', demo_busy_pool)]\<rparr>;
     p' = pool_at (snd (run_state (preemptPod E v ''worker'' 2) s)) ''worker'' in
   usage p' 3 = booked p' 3 + 350"
proof -
  let ?v = "demo_pod ''low'' ''Low'' 350 [2, 3]" and ?E = "demo_env\<lparr>on_get_pod := \<lambda>_ _ _. Inr demo_rt_pod\<rparr>"
  let ?s = "demo_sys\<lparr>cpuPools := [(''worker'', demo_busy_pool)]\<rparr>"
  let ?q = "removePodFromCore 2 ''low'' demo_busy_pool"
  have n: "pi_Name ?v = ''low''" "CPUMillis ?v = 350" by (simp_all add: demo_pod_def)
  have p: "pool_at ?s ''worker'' = demo_busy_pool" by (simp add: pool_at_def)
  have ok: "pool_ok demo_busy_pool"
    by (simp add: demo_busy_pool_def Let_def pool_ok_add pool_ok_new)
  have new: "findLeastLoadedCore (\<lambda>xs. xs) ?q = 3" by code_simp
  have u: "usage ?q 3 = 350" by code_simp
  have r: "registered demo_busy_pool 3 ''low'' = Some ?v" "has_core demo_busy_pool 3" by code_simp+
  have b: "usage demo_busy_pool 3 = booked demo_busy_pool 3" by code_simp
  have fits: "utilization_after (getCoreUtilization ?q 3) 350 \<le> coreUtilizationThreshold"
    using threshold_le [of ?q 3 350] u by simp
  have "let p' = pool_at (snd (run_state (preemptPod ?E ?v ''worker'' 2) ?s)) ''worker'' in
      usage p' 3 = booked p' 3 + CPUMillis ?v"
    by (rule preemptPod_double_count [where pod = demo_rt_pod and q = ?q])
      (use ok p new r b fits in \<open>simp_all add: n pools_ok_def demo_sys_def demo_env_def\<close>)
  then show ?thesis by (simp only: Let_def n)
qed

section \<open>Registration\<close>

definition node_pool :: "sys \<Rightarrow> string \<Rightarrow> CPUPool" where
  "node_pool s n = fst (getOrCreateCPUPool n 8 (cpuPools s))"

lemma node_pool_ok: "pools_ok s \<Longrightarrow> pool_ok (node_pool s n)"
  by (auto simp: pools_ok_def node_pool_def getOrCreateCPUPool_def pool_ok_new Let_def split: option.split)

definition pod_info :: "sys \<Rightarrow> Pod \<Rightarrow> McKube \<Rightarrow> RTSettings \<Rightarrow> int list \<Rightarrow> PodInfo" where
  "pod_info s pod mk rts cores =
     \<lparr>pi_Name = pod_Name pod, pi_Namespace = pod_Namespace pod, pi_Criticality = Criticality (Spec mk),
      CPUMillis = rt_cpuMillis (effectiveRuntime (runtime_state s (pod_Name pod)) rts) (Period rts),
      CoreSet = cores\<rparr>"

lemma run_updateCPUPoolForPod:
  assumes "RTSettings (Spec mk) = Some rts" and "Core rts = Some c" and "NodeName pod \<noteq> ''''"
    and "parseCoreSet c = Some cores"
  shows "run_state (updateCPUPoolForPod pod mk) s =
    (Returned None, s\<lparr>cpuPools := gm_put (NodeName pod)
       (register_pod (pod_info s pod mk rts cores) (node_pool s (NodeName pod)))
       (snd (getOrCreateCPUPool (NodeName pod) 8 (cpuPools s)))\<rparr>)"
  using assms
  by (auto simp: updateCPUPoolForPod_def update_pool_def node_pool_def getOrCreateCPUPool_def pod_info_def
      runtime_state_def Let_def split: option.split)

lemma same_registration_iff:
  "same_registration p n cpu crit i \<longleftrightarrow>
   (\<exists>v. registered p i n = Some v \<and> CPUMillis v = cpu \<and> pi_Criticality v = crit)"
  by (auto simp: same_registration_def pool_defs split: option.split)

lemma register_pod_spec:
  assumes "pool_ok p"
  shows "pool_ok (register_pod info p)" and "has_core (register_pod info p) i = has_core p i"
    and "usage (register_pod info p) i - booked (register_pod info p) i = usage p i - booked p i"
    and "n \<noteq> pi_Name info \<or> i \<notin> set (CoreSet info) \<Longrightarrow>
      registered (register_pod info p) i n = registered p i n"
    and "i \<in> set (CoreSet info) \<Longrightarrow> has_core p i \<Longrightarrow>
      \<exists>v. registered (register_pod info p) i (pi_Name info) = Some v \<and>
        CPUMillis v = CPUMillis info \<and> pi_Criticality v = pi_Criticality info"
proof -
  let ?same = "list_all (same_registration p (pi_Name info) (CPUMillis info) (pi_Criticality info)) (CoreSet info)"
  have eq: "register_pod info p = (if ?same then p else foldl (pool.replace info) p (CoreSet info))"
    by (simp only: register_pod_def)
  show "pool_ok (register_pod info p)" "has_core (register_pod info p) i = has_core p i"
    "usage (register_pod info p) i - booked (register_pod info p) i = usage p i - booked p i"
    unfolding eq using pool.replace_all [OF assms, of info "CoreSet info"] assms by simp_all
  show "registered (register_pod info p) i n = registered p i n"
    if "n \<noteq> pi_Name info \<or> i \<notin> set (CoreSet info)"
    unfolding eq using that pool.reg_replace_all [of info p "CoreSet info" i n] by auto
  show "\<exists>v. registered (register_pod info p) i (pi_Name info) = Some v \<and>
      CPUMillis v = CPUMillis info \<and> pi_Criticality v = pi_Criticality info"
    if "i \<in> set (CoreSet info)" "has_core p i"
    unfolding eq using that pool.reg_replace_all [of info p "CoreSet info" i "pi_Name info"]
    by (auto simp: list_all_iff same_registration_iff)
qed

text \<open>
  C19: registering a pod whose settings name cores: on every named core that exists the pod is
  registered afterwards with its criticality and the millicores of its current runtime state;
  registrations of other pods and on other cores, the set of cores and the difference between recorded
  and booked load of every core do not change, so balance is kept; the pools of other nodes, the other
  tables and the history of calls do not change; and registering it again changes nothing if the named
  cores exist. The pool before is the node's pool, or a new one of eight cores if it has none.
\<close>

theorem updateCPUPoolForPod_registers:
  assumes "pools_ok s" and "RTSettings (Spec mk) = Some rts" and "Core rts = Some c"
    and "NodeName pod \<noteq> ''''" and "parseCoreSet c = Some cores"
  shows "let r = run_state (updateCPUPoolForPod pod mk) s; p = node_pool s (NodeName pod);
      p' = pool_at (snd r) (NodeName pod) in
    fst r = Returned None \<and> pools_ok (snd r) \<and>
    (\<forall>i. i \<in> set cores \<and> has_core p i \<longrightarrow> (\<exists>v. registered p' i (pod_Name pod) = Some v \<and>
       CPUMillis v = rt_cpuMillis (effectiveRuntime (runtime_state s (pod_Name pod)) rts) (Period rts) \<and>
       pi_Criticality v = Criticality (Spec mk))) \<and>
    (\<forall>i n. n \<noteq> pod_Name pod \<or> i \<notin> set cores \<longrightarrow> registered p' i n = registered p i n) \<and>
    (\<forall>i. has_core p' i = has_core p i) \<and>
    (\<forall>i. usage p' i - booked p' i = usage p i - booked p i) \<and>
    (\<forall>m. m \<noteq> NodeName pod \<longrightarrow> map_of (cpuPools (snd r)) m = map_of (cpuPools s) m) \<and>
    snd r = s\<lparr>cpuPools := cpuPools (snd r)\<rparr> \<and>
    ((\<forall>i \<in> set cores. has_core p i) \<longrightarrow> run_state (updateCPUPoolForPod pod mk) (snd r) = r)"
proof -
  let ?n = "NodeName pod" and ?info = "pod_info s pod mk rts cores"
  let ?p = "node_pool s ?n" and ?p' = "register_pod ?info (node_pool s ?n)"
  define s' where "s' = s\<lparr>cpuPools := gm_put ?n ?p' (snd (getOrCreateCPUPool ?n 8 (cpuPools s)))\<rparr>"
  note run = run_updateCPUPoolForPod [OF assms(2-5)]
  have r: "run_state (updateCPUPoolForPod pod mk) s = (Returned None, s')" unfolding run s'_def ..
  have ok: "pool_ok ?p" using assms(1) by (rule node_pool_ok)
  note spec = register_pod_spec [OF ok, where info = ?info]
  have info: "pi_Name ?info = pod_Name pod" "CoreSet ?info = cores" "pi_Criticality ?info = Criticality (Spec mk)"
    "CPUMillis ?info = rt_cpuMillis (effectiveRuntime (runtime_state s (pod_Name pod)) rts) (Period rts)"
    by (simp_all add: pod_info_def)
  have p': "pool_at s' ?n = ?p'" by (simp add: s'_def pool_at_def)
  have oks: "pools_ok s'"
    using assms(1) spec(1) by (auto simp: pools_ok_def s'_def getOrCreateCPUPool_def pool_ok_new Let_def
        split: option.splits if_splits)
  have again: "run_state (updateCPUPoolForPod pod mk) s' = (Returned None, s')"
    if cores: "\<forall>i \<in> set cores. has_core ?p i"
  proof -
    have get: "map_of (cpuPools s') ?n = Some ?p'" by (simp add: s'_def)
    then have np: "node_pool s' ?n = ?p'" "snd (getOrCreateCPUPool ?n 8 (cpuPools s')) = cpuPools s'"
      by (simp_all add: node_pool_def getOrCreateCPUPool_def)
    have info': "pod_info s' pod mk rts cores = ?info" by (simp add: pod_info_def s'_def runtime_state_def)
    have "register_pod ?info ?p' = ?p'"
      using spec(5) cores by (auto simp: register_pod_def [of _ "register_pod _ _"] list_all_iff
          same_registration_iff info)
    moreover have "gm_put ?n ?p' (cpuPools s') = cpuPools s'"
      by (simp add: s'_def)
    ultimately show ?thesis unfolding run np info' by simp
  qed
  have others: "map_of (cpuPools s') m = map_of (cpuPools s) m" if "m \<noteq> ?n" for m
    using that by (auto simp: s'_def getOrCreateCPUPool_def Let_def split: option.split)
  have rest: "s' = s\<lparr>cpuPools := cpuPools s'\<rparr>" by (simp add: s'_def)
  show ?thesis
    unfolding Let_def r fst_conv snd_conv p' using oks spec(2-5) again info others rest by simp
qed

theorem updateCPUPoolForPod_registers_witness:
  "let r = run_state (updateCPUPoolForPod demo_rt_pod (demo_mckube (Some ''2''))) demo_sys in
   fst r = Returned None \<and> (\<exists>v. registered (pool_at (snd r) ''worker'') 2 ''p'' = Some v \<and> pi_Criticality v = ''Low'')"
proof -
  let ?mk = "demo_mckube (Some ''2'')"
  let ?rts = "\<lparr>Period = 1000, RuntimeLow = 300, RuntimeHi = 500, Core = Some ''2''\<rparr>"
  have parse: "parseCoreSet ''2'' = Some [2]" by code_simp
  have core: "has_core (node_pool demo_sys ''worker'') 2"
    by (simp add: node_pool_def getOrCreateCPUPool_def demo_sys_def has_core_def new_pool_cores Let_def)
  have mk: "RTSettings (Spec ?mk) = Some ?rts" "Criticality (Spec ?mk) = ''Low''" "NodeName demo_rt_pod = ''worker''"
    "pod_Name demo_rt_pod = ''p''"
    by (simp_all add: demo_mckube_def demo_rt_pod_def)
  show ?thesis
    using updateCPUPoolForPod_registers [OF pools_ok_demo mk(1) _ _ parse, of demo_rt_pod] core
    by (auto simp: Let_def mk(2-))
qed

end
