(* ===== verification/Taint_Thread.thy ===== *)
theory Taint_Thread
  imports Cluster
begin

text \<open>
  The thread of \<open>internal/controller/mckube_controller.go\<close> that counts down the timers of tainted
  nodes and takes the taint off when a timer has run out.
\<close>

section \<open>A round of the taint thread\<close>

definition rtPressureTaintKey :: string where
  "rtPressureTaintKey = ''McKubeRTDeadlinePressure''"

text \<open>The first taint with the key is overwritten by the last one, and the list is cut by one.\<close>

fun first_index :: "string \<Rightarrow> string list \<Rightarrow> nat option" where
  "first_index k [] = None"
| "first_index k (t # ts) = (if t = k then Some 0 else map_option Suc (first_index k ts))"

definition untaint :: "string list \<Rightarrow> string list option" where
  "untaint ts = (case first_index rtPressureTaintKey ts of
     None \<Rightarrow> None | Some i \<Rightarrow> Some (butlast (ts[i := last ts])))"

definition taint_node :: "env \<Rightarrow> string \<times> int \<Rightarrow> unit act" where
  "taint_node E entry = (case entry of (nodeName, timer) \<Rightarrow>
     if timer \<le> 0 then do {
       r \<leftarrow> get_node E nodeName;
       case r of Inl _ \<Rightarrow> State_Monad.return () | Inr node \<Rightarrow> do {
         (case untaint (node_Taints node) of
            None \<Rightarrow> State_Monad.return ()
          | Some ts \<Rightarrow> do { _ \<leftarrow> update_node E (node\<lparr>node_Taints := ts\<rparr>); State_Monad.return () });
         State_Monad.update (\<lambda>s. s\<lparr>Timers := gm_del nodeName (Timers s)\<rparr>)
       }
     }
     else State_Monad.update (\<lambda>s. s\<lparr>Timers := gm_put nodeName (timer - 1) (Timers s)\<rparr>))"

definition taint_round :: "env \<Rightarrow> unit act" where
  "taint_round E = do {
     ord \<leftarrow> range_over (on_range_timers E);
     s \<leftarrow> State_Monad.get;
     for_each (taint_node E) (ord (Timers s))
   }"

context call_frame
begin

lemma keeps_taint:
  assumes "\<And>s p. R s (s\<lparr>Timers := p\<rparr>)"
  shows "keeps (taint_round E)"
proof -
  have "keeps (taint_node E e)" for e
    unfolding taint_node_def
    by (auto split: prod.split sum.split option.split
        intro!: keeps_bind keeps_return keeps_calls keeps_update assms)
  then show ?thesis
    unfolding taint_round_def by (auto intro!: keeps_bind keeps_get keeps_calls keeps_for_each)
qed

end

section \<open>What a round does\<close>

lemma first_index_Some:
  "first_index k ts = Some i \<Longrightarrow> i < length ts \<and> ts ! i = k"
  by (induction ts arbitrary: i) (auto split: if_splits)

lemma first_index_None: "first_index k ts = None \<longleftrightarrow> k \<notin> set ts"
  by (induction ts) auto

lemma mset_untaint:
  assumes "untaint ts = Some us"
  shows "mset ts = add_mset rtPressureTaintKey (mset us)"
proof -
  obtain i where i: "first_index rtPressureTaintKey ts = Some i" "us = butlast (ts[i := last ts])"
    using assms by (auto simp: untaint_def split: option.splits)
  have len: "i < length ts" "ts ! i = rtPressureTaintKey" "ts \<noteq> []"
    using first_index_Some [OF i(1)] by auto
  let ?vs = "ts[i := last ts]"
  have "?vs \<noteq> []" using len by simp
  moreover have "last ?vs = last ts" using len by (simp add: last_list_update)
  ultimately have "mset ?vs = add_mset (last ts) (mset us)"
    unfolding i(2) by (metis append_butlast_last_id mset.simps(2) mset_append add_mset_add_single mset_single_iff)
  moreover have "mset ?vs = add_mset (last ts) (mset ts - {#ts ! i#})"
    using len by (simp add: mset_update)
  ultimately have "mset us = mset ts - {#ts ! i#}" by simp
  moreover have "ts ! i \<in># mset ts" using nth_mem [OF len(1)] by (simp only: set_mset_mset)
  ultimately show ?thesis using len(2) by (metis insert_DiffM)
qed

text \<open>An update that takes one pressure taint off a node as it was read.\<close>

definition untaints :: "env \<Rightarrow> string \<Rightarrow> KNode \<Rightarrow> bool" where
  "untaints E n node \<longleftrightarrow> (\<exists>h old. on_get_node E h n = Inr old \<and>
     node = old\<lparr>node_Taints := node_Taints node\<rparr> \<and>
     mset (node_Taints old) = add_mset rtPressureTaintKey (mset (node_Taints node)))"

definition next_timer :: "int \<Rightarrow> int option \<Rightarrow> bool" where
  "next_timer t r \<longleftrightarrow> (if 0 < t then r = Some (t - 1) else r = None \<or> r = Some t)"

lemma run_taint_node:
  assumes "map_of (Timers s) n = Some t"
  obtains new where "calls (snd (run_state (taint_node E (n, t)) s)) = calls s @ new"
    and "next_timer t (map_of (Timers (snd (run_state (taint_node E (n, t)) s))) n)"
    and "\<And>m. m \<noteq> n \<Longrightarrow> map_of (Timers (snd (run_state (taint_node E (n, t)) s))) m = map_of (Timers s) m"
    and "\<And>node. UpdateNode node \<in> set new \<Longrightarrow> t \<le> 0 \<and> untaints E n node"
proof (cases "0 < t")
  case True
  then show thesis by (intro that [of "[]"]) (simp_all add: taint_node_def next_timer_def)
next
  case False
  show thesis
  proof (cases "on_get_node E (calls s) n")
    case (Inl e)
    then show thesis using False assms
      by (intro that [of "[GetNode n]"]) (simp_all add: taint_node_def get_node_def next_timer_def)
  next
    case (Inr old)
    show thesis
    proof (cases "untaint (node_Taints old)")
      case None
      then show thesis using False Inr
        by (intro that [of "[GetNode n]"]) (simp_all add: taint_node_def get_node_def next_timer_def)
    next
      case (Some ts)
      have "untaints E n (old\<lparr>node_Taints := ts\<rparr>)"
        unfolding untaints_def using Inr mset_untaint [OF Some] by (intro exI [of _ "calls s"] exI [of _ old]) simp
      then show thesis using False Inr Some
        by (intro that [of "[GetNode n, UpdateNode (old\<lparr>node_Taints := ts\<rparr>)]"])
          (simp_all add: taint_node_def get_node_def update_node_def next_timer_def)
    qed
  qed
qed

lemma run_taint_nodes:
  fixes E :: env
  assumes "distinct (map fst es)" and "\<And>n t. (n, t) \<in> set es \<Longrightarrow> map_of (Timers s) n = Some t"
  defines "s' \<equiv> snd (run_state (for_each (taint_node E) es) s)"
  shows "(\<forall>(n, t) \<in> set es. next_timer t (map_of (Timers s') n)) \<and>
    (\<forall>m. m \<notin> fst ` set es \<longrightarrow> map_of (Timers s') m = map_of (Timers s) m) \<and>
    (\<exists>new. calls s' = calls s @ new \<and>
      (\<forall>node. UpdateNode node \<in> set new \<longrightarrow> (\<exists>(n, t) \<in> set es. t \<le> 0 \<and> untaints E n node)))"
  using assms(1,2) unfolding s'_def
proof (induction es arbitrary: s)
  case Nil
  show ?case by simp
next
  case (Cons e es)
  obtain n t where e: "e = (n, t)" by (cases e)
  have "map_of (Timers s) n = Some t" using Cons.prems(2) by (simp add: e)
  from run_taint_node [OF this, of E] obtain new where
    new: "calls (snd (run_state (taint_node E (n, t)) s)) = calls s @ new"
    "next_timer t (map_of (Timers (snd (run_state (taint_node E (n, t)) s))) n)"
    "\<And>m. m \<noteq> n \<Longrightarrow> map_of (Timers (snd (run_state (taint_node E (n, t)) s))) m = map_of (Timers s) m"
    "\<And>node. UpdateNode node \<in> set new \<Longrightarrow> t \<le> 0 \<and> untaints E n node"
    by metis
  define s1 where "s1 = snd (run_state (taint_node E (n, t)) s)"
  have run: "snd (run_state (for_each (taint_node E) (e # es)) s) = snd (run_state (for_each (taint_node E) es) s1)"
    by (simp add: e s1_def case_prod_beta')
  have out: "n \<notin> fst ` set es" "distinct (map fst es)" using Cons.prems(1) by (simp_all add: e)
  have "map_of (Timers s1) m = Some u" if "(m, u) \<in> set es" for m u
  proof -
    have "m \<noteq> n" using that out(1) by force
    then show ?thesis using new(3) Cons.prems(2) that by (simp add: s1_def)
  qed
  note IH = Cons.IH [OF out(2) this]
  then obtain later where later: "calls (snd (run_state (for_each (taint_node E) es) s1)) = calls s1 @ later"
    "\<And>node. UpdateNode node \<in> set later \<Longrightarrow> \<exists>(n, t) \<in> set es. t \<le> 0 \<and> untaints E n node"
    by blast
  have "calls (snd (run_state (for_each (taint_node E) es) s1)) = calls s @ (new @ later)"
    using later(1) new(1) by (simp add: s1_def)
  moreover have "\<forall>node. UpdateNode node \<in> set (new @ later) \<longrightarrow> (\<exists>(n, t) \<in> set (e # es). t \<le> 0 \<and> untaints E n node)"
    using new(4) later(2) by (fastforce simp: e)
  ultimately have "\<exists>new. calls (snd (run_state (for_each (taint_node E) es) s1)) = calls s @ new \<and>
      (\<forall>node. UpdateNode node \<in> set new \<longrightarrow> (\<exists>(n, t) \<in> set (e # es). t \<le> 0 \<and> untaints E n node))"
    by blast
  moreover have "\<forall>(m, u) \<in> set (e # es). next_timer u (map_of (Timers (snd (run_state (for_each (taint_node E) es) s1))) m)"
    using IH out(1) new(2) by (auto simp: e s1_def)
  moreover have "\<forall>m. m \<notin> fst ` set (e # es) \<longrightarrow>
      map_of (Timers (snd (run_state (for_each (taint_node E) es) s1))) m = map_of (Timers s) m"
    using IH new(3) by (auto simp: e s1_def)
  ultimately show ?case unfolding run by blast
qed

section \<open>Properties\<close>

text \<open>
  One round of the taint thread, whatever the order of the timers and the answers: a running timer
  goes down by one; a timer that has run out is removed or, when its node could not be read, kept; no
  timer appears; and every node written back is that of a timer that has run out, as read, less exactly
  one pressure taint.
\<close>

lemma taint_round_effect:
  assumes "gm_ok (Timers s)" and "is_order (on_range_timers E (calls s))"
  shows "let s' = snd (run_state (taint_round E) s) in
    (\<forall>n t. map_of (Timers s) n = Some t \<longrightarrow> next_timer t (map_of (Timers s') n)) \<and>
    (\<forall>n. map_of (Timers s) n = None \<longrightarrow> map_of (Timers s') n = None) \<and>
    (\<forall>node. UpdateNode node \<in> set (new_calls s s') \<longrightarrow>
      (\<exists>n t. map_of (Timers s) n = Some t \<and> t \<le> 0 \<and> untaints E n node))"
proof -
  let ?s1 = "s\<lparr>calls := calls s @ [RangeMap]\<rparr>" and ?es = "on_range_timers E (calls s) (Timers s)"
  let ?s' = "snd (run_state (for_each (taint_node E) ?es) ?s1)"
  have run: "snd (run_state (taint_round E) s) = ?s'"
    by (simp add: taint_round_def range_over_def)
  have perm: "mset ?es = mset (Timers s)" using assms(2) by (simp add: is_order_def)
  have es: "set ?es = set (Timers s)" using mset_eq_setD [OF perm] .
  have "mset (map fst ?es) = mset (map fst (Timers s))" using perm by simp
  then have dist: "distinct (map fst ?es)" using assms(1) mset_eq_imp_distinct_iff by blast
  have mem: "(n, t) \<in> set ?es \<longleftrightarrow> map_of (Timers s) n = Some t" for n t
    unfolding es set_eq_lookup [OF assms(1)] by simp
  have timers: "map_of (Timers ?s1) n = Some t" if "(n, t) \<in> set ?es" for n t
    using that mem by simp
  note all = run_taint_nodes [OF dist timers, where E = E]
  note running = all [THEN conjunct1] and absent = all [THEN conjunct2, THEN conjunct1]
  from all [THEN conjunct2, THEN conjunct2] obtain new where new: "calls ?s' = calls ?s1 @ new"
    "\<forall>node. UpdateNode node \<in> set new \<longrightarrow> (\<exists>(n, t) \<in> set ?es. t \<le> 0 \<and> untaints E n node)" by blast
  have calls: "new_calls s ?s' = RangeMap # new" unfolding new_calls_def new(1) by simp
  have "\<exists>n t. map_of (Timers s) n = Some t \<and> t \<le> 0 \<and> untaints E n node"
    if "UpdateNode node \<in> set (new_calls s ?s')" for node
  proof -
    have "UpdateNode node \<in> set new" using that by (simp add: calls)
    then obtain n t where "(n, t) \<in> set ?es" "t \<le> 0 \<and> untaints E n node" using new(2) by blast
    then show ?thesis using mem by blast
  qed
  moreover have "map_of (Timers ?s') n = None" if "map_of (Timers s) n = None" for n
  proof -
    have "n \<notin> fst ` set ?es" using that by (simp add: es map_of_eq_None_iff)
    then have "map_of (Timers ?s') n = map_of (Timers ?s1) n" using absent by blast
    then show ?thesis using that by simp
  qed
  moreover have "next_timer t (map_of (Timers ?s') n)" if "map_of (Timers s) n = Some t" for n t
    using running that mem by blast
  ultimately show ?thesis unfolding run Let_def by blast
qed

end
