(* ===== verification/Reconciler.thy ===== *)
theory Reconciler
  imports Preemption Taint_Thread
begin

text \<open>
  The reconcile loop of \<open>internal/controller/mckube_controller.go\<close> for one McKube resource: finalizers,
  binding to a node, registration and preemption, applying the settings, and the dispatch of CPU
  pressure and recovery; and the mapping of pod events to requests.
\<close>

section \<open>Finalizers\<close>

definition mckubeFinalizer :: string where
  "mckubeFinalizer = ''mckube.mcoperator.sdv.com/finalizer''"

fun containsString :: "string list \<Rightarrow> string \<Rightarrow> bool" where
  "containsString [] s = False"
| "containsString (item # rest) s = (if item = s then True else containsString rest s)"

fun remove_loop :: "string list \<Rightarrow> string \<Rightarrow> string list \<Rightarrow> string list" where
  "remove_loop [] s result = result"
| "remove_loop (item # rest) s result =
     (if item \<noteq> s then remove_loop rest s (result @ [item]) else remove_loop rest s result)"

definition removeString :: "string list \<Rightarrow> string \<Rightarrow> string list" where
  "removeString items s = remove_loop items s []"

datatype requeue = NoRequeue | Requeue | RequeueAfter int

type_synonym rec_result = "requeue \<times> go_error option"

definition reconcile_deleted :: "env \<Rightarrow> McKube \<Rightarrow> rec_result act" where
  "reconcile_deleted E rt =
     (if containsString (mk_Finalizers rt) mckubeFinalizer then do {
        (if PodName (Spec rt) \<noteq> '''' then cleanupPodState (PodName (Spec rt)) else State_Monad.return ());
        r \<leftarrow> update_mckube E (rt\<lparr>mk_Finalizers := removeString (mk_Finalizers rt) mckubeFinalizer\<rparr>);
        State_Monad.return (case r of Inl e \<Rightarrow> (NoRequeue, Some e) | Inr _ \<Rightarrow> (NoRequeue, None))
      }
      else State_Monad.return (NoRequeue, None))"

definition add_finalizer :: "env \<Rightarrow> McKube \<Rightarrow> rec_result act" where
  "add_finalizer E rt = do {
     r \<leftarrow> update_mckube E (rt\<lparr>mk_Finalizers := mk_Finalizers rt @ [mckubeFinalizer]\<rparr>);
     State_Monad.return (case r of Inl e \<Rightarrow> (NoRequeue, Some e) | Inr _ \<Rightarrow> (Requeue, None))
   }"

section \<open>Binding to a node\<close>

definition active_phase :: "Pod \<Rightarrow> bool" where
  "active_phase pod \<longleftrightarrow> Phase pod = PodRunning \<or> Phase pod = PodPending"

definition bind_node :: "env \<Rightarrow> McKube \<Rightarrow> rec_result act" where
  "bind_node E rt = do {
     p \<leftarrow> get_pod E (mk_Namespace rt) (PodName (Spec rt));
     case p of
       Inl e \<Rightarrow> State_Monad.return (if e = NotFound then (RequeueAfter 5, None) else (NoRequeue, Some e))
     | Inr pod \<Rightarrow>
         if NodeName pod = '''' \<or> \<not> active_phase pod then State_Monad.return (RequeueAfter 5, None)
         else do {
           r \<leftarrow> update_mckube E (rt\<lparr>Spec := (Spec rt)\<lparr>Node := NodeName pod\<rparr>\<rparr>);
           State_Monad.return (case r of Inl e \<Rightarrow> (NoRequeue, Some e) | Inr _ \<Rightarrow> (RequeueAfter 1, None))
         }
   }"

section \<open>Registration\<close>

text \<open>
  The object returned by the status update replaces the resource in the rest of the run; settings it
  does not carry keep their old value.
\<close>

definition settle :: "McKube \<Rightarrow> McKube \<Rightarrow> McKube" where
  "settle old new = (if RTSettings (Spec new) = None
     then new\<lparr>Spec := (Spec new)\<lparr>RTSettings := RTSettings (Spec old)\<rparr>\<rparr> else new)"

definition init_allocated :: "env \<Rightarrow> McKube \<Rightarrow> string \<Rightarrow> (McKube \<times> string) act" where
  "init_allocated E rt coreStr =
     (if AllocatedCore (Status rt) \<noteq> '''' then State_Monad.return (rt, AllocatedCore (Status rt))
      else do {
        let rt1 = rt\<lparr>Status := (Status rt)\<lparr>AllocatedCore := coreStr\<rparr>\<rparr>;
        r \<leftarrow> status_update E rt1;
        State_Monad.return (case r of Inl _ \<Rightarrow> rt1 | Inr rt2 \<Rightarrow> settle rt1 rt2, coreStr)
      })"

definition then_with :: "McKube \<Rightarrow> 'a outcome \<Rightarrow> McKube outcome" where
  "then_with rt r = (case r of Returned _ \<Rightarrow> Returned rt | Panicked \<Rightarrow> Panicked | Diverged \<Rightarrow> Diverged)"

definition register_rt :: "env \<Rightarrow> McKube \<Rightarrow> RTSettings \<Rightarrow> string \<Rightarrow> Pod \<Rightarrow> McKube outcome act" where
  "register_rt E rt0 rts0 coreStr pod = do {
     (rt, actualCoreStr) \<leftarrow> init_allocated E rt0 coreStr;
     let rts = (case RTSettings (Spec rt) of Some r \<Rightarrow> r | None \<Rightarrow> rts0);
     case parseCoreSet actualCoreStr of
       None \<Rightarrow> State_Monad.return Diverged
     | Some targetCores \<Rightarrow> do {
         s \<leftarrow> State_Monad.get;
         let cpuMillis = rt_cpuMillis (effectiveRuntime (runtime_state s (pod_Name pod)) rts) (Period rts);
         let criticality = Criticality (Spec rt);
         State_Monad.update (\<lambda>s. s\<lparr>cpuPools := snd (getOrCreateCPUPool (NodeName pod) 8 (cpuPools s))\<rparr>);
         s \<leftarrow> State_Monad.get;
         if list_all (same_registration (pool_at s (NodeName pod)) (pod_Name pod) cpuMillis criticality) targetCores
         then State_Monad.return (Returned rt)
         else do {
           _ \<leftarrow> checkAndPreemptForPod E pod targetCores cpuMillis criticality;
           u \<leftarrow> updateCPUPoolForPod pod rt;
           State_Monad.return (then_with rt u)
         }
       }
   }"

definition reconcile_rt :: "env \<Rightarrow> McKube \<Rightarrow> McKube outcome act" where
  "reconcile_rt E rt =
     (case RTSettings (Spec rt) of
        None \<Rightarrow> State_Monad.return (Returned rt)
      | Some rts \<Rightarrow> do {
          p \<leftarrow> get_pod E (mk_Namespace rt) (PodName (Spec rt));
          case p of
            Inl _ \<Rightarrow> State_Monad.return (Returned rt)
          | Inr pod \<Rightarrow>
              if NodeName pod \<noteq> '''' \<and> active_phase pod then do {
                ensurePodRuntimeStateInitialized (pod_Name pod);
                r \<leftarrow> (case Core rts of
                  Some coreStr \<Rightarrow> register_rt E rt rts coreStr pod
                | None \<Rightarrow> do {
                    u \<leftarrow> updateCPUPoolForPod pod rt;
                    State_Monad.return (then_with rt u)
                  });
                case r of
                  Returned rt' \<Rightarrow>
                    if Phase pod = PodRunning then do {
                      a \<leftarrow> applyRTSettingsToContainers E pod rt';
                      State_Monad.return (then_with rt' a)
                    }
                    else State_Monad.return (Returned rt')
                | Panicked \<Rightarrow> State_Monad.return Panicked
                | Diverged \<Rightarrow> State_Monad.return Diverged
              }
              else State_Monad.return (Returned rt)
        })"

section \<open>Pressure and recovery\<close>

definition reconcile_pressure :: "env \<Rightarrow> string \<Rightarrow> unit act" where
  "reconcile_pressure E nodeName =
     (if nodeName = '''' then State_Monad.return ()
      else do {
        r \<leftarrow> get_node E nodeName;
        case r of Inl _ \<Rightarrow> State_Monad.return () | Inr node \<Rightarrow>
          (case map_of (node_Annotations node) AnnCpuBusyKey of
             None \<Rightarrow> State_Monad.return ()
           | Some isCpuBusyStr \<Rightarrow> do {
               let isCpuBusy = (trim_space isCpuBusyStr = ''true'');
               s \<leftarrow> State_Monad.get;
               if map_of (lastCpuBusyState s) nodeName \<noteq> Some isCpuBusy then do {
                 State_Monad.update (\<lambda>s. s\<lparr>lastCpuBusyState := gm_put nodeName isCpuBusy (lastCpuBusyState s)\<rparr>);
                 if isCpuBusy then HandleNodeCPUPressure E nodeName else handleCPURecovery E nodeName
               }
               else State_Monad.return ()
             })
      })"

section \<open>The loop\<close>

definition Reconcile :: "env \<Rightarrow> string \<Rightarrow> string \<Rightarrow> rec_result outcome act" where
  "Reconcile E ns name = do {
     r \<leftarrow> get_mckube E ns name;
     case r of
       Inl e \<Rightarrow> State_Monad.return (Returned (NoRequeue, if e = NotFound then None else Some e))
     | Inr rt \<Rightarrow>
         if mk_DeletionTimestamp rt \<noteq> None then do {
           x \<leftarrow> reconcile_deleted E rt; State_Monad.return (Returned x) }
         else if \<not> containsString (mk_Finalizers rt) mckubeFinalizer then do {
           x \<leftarrow> add_finalizer E rt; State_Monad.return (Returned x) }
         else if PodName (Spec rt) = '''' then State_Monad.return (Returned (NoRequeue, None))
         else if Node (Spec rt) = '''' then do {
           x \<leftarrow> bind_node E rt; State_Monad.return (Returned x) }
         else do {
           o1 \<leftarrow> reconcile_rt E rt;
           case o1 of
             Panicked \<Rightarrow> State_Monad.return Panicked
           | Diverged \<Rightarrow> State_Monad.return Diverged
           | Returned rt' \<Rightarrow> do {
               reconcile_pressure E (Node (Spec rt'));
               State_Monad.return (Returned (NoRequeue, None))
             }
         }
   }"

section \<open>Requests from pod events\<close>

definition findObjectsForPod :: "env \<Rightarrow> Pod \<Rightarrow> (string \<times> string) list act" where
  "findObjectsForPod E pod =
     (if pod_Namespace pod \<noteq> targetNamespace then State_Monad.return []
      else if gm_str (pod_Labels pod) rt_label = '''' then State_Monad.return []
      else do {
        (if pod_DeletionTimestamp pod \<noteq> None then cleanupPodState (pod_Name pod) else State_Monad.return ());
        l \<leftarrow> list_mckubes E (pod_Namespace pod);
        State_Monad.return (case l of
          Inl _ \<Rightarrow> []
        | Inr items \<Rightarrow>
            (case find_mckube (pod_Name pod) items of
               Some mk \<Rightarrow> [(mk_Namespace mk, mk_Name mk)]
             | None \<Rightarrow> []))
      })"

section \<open>Frames of the loop\<close>

lemma keeps_apply: "only_calls.keeps (applyRTSettingsToContainers E pod mk)"
  unfolding applyRTSettingsToContainers_def apply_container_def
  by (auto split: option.split
      intro!: only_calls.keeps_return only_calls.keeps_bind only_calls.keeps_get
        only_calls.keeps_for_until only_calls.keeps_send)

text \<open>
  A frame that every part of the loop keeps is kept by the loop: the parts that write to the tables
  are the assumptions, the rest only makes calls.
\<close>

context call_frame
begin

lemma keeps_Reconcile_parts:
  assumes ensure: "\<And>n. keeps (ensurePodRuntimeStateInitialized n)"
    and create: "\<And>n k. keeps (State_Monad.update (\<lambda>s. s\<lparr>cpuPools := snd (getOrCreateCPUPool n k (cpuPools s))\<rparr>))"
    and preempt: "\<And>pod cs cpu crit. keeps (checkAndPreemptForPod E pod cs cpu crit)"
    and register: "\<And>pod mk. keeps (updateCPUPoolForPod pod mk)"
    and busy: "\<And>s p. R s (s\<lparr>lastCpuBusyState := p\<rparr>)"
    and pressure: "\<And>n. keeps (HandleNodeCPUPressure E n)" and recovery: "\<And>n. keeps (handleCPURecovery E n)"
  shows "keeps (add_finalizer E rt)" and "keeps (bind_node E rt)" and "keeps (reconcile_rt E rt)"
    and "keeps (reconcile_pressure E node)"
proof -
  note basic = keeps_bind keeps_return keeps_get keeps_calls
  show "keeps (add_finalizer E rt)"
    unfolding add_finalizer_def by (auto intro!: basic)
  show "keeps (bind_node E rt)"
    unfolding bind_node_def by (auto split: sum.split intro!: basic)
  have init: "keeps (init_allocated E rt c)" for rt c
    unfolding init_allocated_def Let_def by (auto intro!: basic)
  have reg: "keeps (register_rt E rt rts c pod)" for rt rts c pod
    unfolding register_rt_def Let_def
    by (auto split: prod.split option.split intro!: basic init create preempt register)
  show "keeps (reconcile_rt E rt)"
    unfolding reconcile_rt_def
    by (auto split: prod.split option.split sum.split outcome.split
        intro!: basic reg ensure register keeps_only_calls [OF keeps_apply])
  show "keeps (reconcile_pressure E node)"
    unfolding reconcile_pressure_def Let_def
    by (auto split: option.split sum.split intro!: basic pressure recovery keeps_update busy)
qed

lemma keeps_Reconcile:
  assumes cleanup: "\<And>n. keeps (cleanupPodState n)" and ensure: "\<And>n. keeps (ensurePodRuntimeStateInitialized n)"
    and create: "\<And>n k. keeps (State_Monad.update (\<lambda>s. s\<lparr>cpuPools := snd (getOrCreateCPUPool n k (cpuPools s))\<rparr>))"
    and preempt: "\<And>pod cs cpu crit. keeps (checkAndPreemptForPod E pod cs cpu crit)"
    and register: "\<And>pod mk. keeps (updateCPUPoolForPod pod mk)"
    and busy: "\<And>s p. R s (s\<lparr>lastCpuBusyState := p\<rparr>)"
    and pressure: "\<And>n. keeps (HandleNodeCPUPressure E n)" and recovery: "\<And>n. keeps (handleCPURecovery E n)"
  shows "keeps (Reconcile E ns n)"
proof -
  note parts = keeps_Reconcile_parts [OF ensure create preempt register busy pressure recovery]
  have "keeps (reconcile_deleted E rt)" for rt
    unfolding reconcile_deleted_def by (auto intro!: keeps_bind keeps_return keeps_get keeps_calls cleanup)
  then show ?thesis
    unfolding Reconcile_def
    by (auto split: sum.split outcome.split intro!: keeps_bind keeps_return keeps_calls parts)
qed

text \<open>The same for a reconcile of a resource that is not being deleted, which cleans nothing up.\<close>

lemma live_Reconcile:
  assumes "\<And>n. keeps (ensurePodRuntimeStateInitialized n)"
    and "\<And>n k. keeps (State_Monad.update (\<lambda>s. s\<lparr>cpuPools := snd (getOrCreateCPUPool n k (cpuPools s))\<rparr>))"
    and "\<And>pod cs cpu crit. keeps (checkAndPreemptForPod E pod cs cpu crit)"
    and "\<And>pod mk. keeps (updateCPUPoolForPod pod mk)"
    and "\<And>s p. R s (s\<lparr>lastCpuBusyState := p\<rparr>)"
    and "\<And>n. keeps (HandleNodeCPUPressure E n)" and "\<And>n. keeps (handleCPURecovery E n)"
    and live: "\<And>rt. on_get_mckube E (calls s) ns n = Inr rt \<Longrightarrow> mk_DeletionTimestamp rt = None"
  shows "R s (snd (run_state (Reconcile E ns n) s))"
proof (cases "on_get_mckube E (calls s) ns n")
  case (Inl e)
  then show ?thesis by (simp add: Reconcile_def get_mckube_def R_calls)
next
  case (Inr rt)
  note parts = keeps_Reconcile_parts [OF assms(1-7)]
  let ?rest = "if \<not> containsString (mk_Finalizers rt) mckubeFinalizer then do {
      x \<leftarrow> add_finalizer E rt; State_Monad.return (Returned x) }
    else if PodName (Spec rt) = '''' then State_Monad.return (Returned (NoRequeue, None))
    else if Node (Spec rt) = '''' then do {
      x \<leftarrow> bind_node E rt; State_Monad.return (Returned x) }
    else do {
      o1 \<leftarrow> reconcile_rt E rt;
      case o1 of
        Panicked \<Rightarrow> State_Monad.return Panicked
      | Diverged \<Rightarrow> State_Monad.return Diverged
      | Returned rt' \<Rightarrow> do {
          reconcile_pressure E (Node (Spec rt'));
          State_Monad.return (Returned (NoRequeue, None))
        }
    }"
  let ?s1 = "s\<lparr>calls := calls s @ [GetMcKube ns n]\<rparr>"
  have "keeps ?rest"
    by (auto split: outcome.split intro!: keeps_bind keeps_return parts)
  from keepsD [OF this, of ?s1] have "R ?s1 (snd (run_state (Reconcile E ns n) s))"
    using Inr live [OF Inr] by (simp add: Reconcile_def get_mckube_def)
  then show ?thesis by (rule R_trans [OF R_calls])
qed

lemma keeps_find_objects:
  assumes "\<And>n. keeps (cleanupPodState n)"
  shows "keeps (findObjectsForPod E pod)"
  unfolding findObjectsForPod_def by (auto intro!: keeps_bind keeps_return keeps_calls assms)

end

section \<open>The invariant of the controller's tables\<close>

definition sys_ok :: "sys \<Rightarrow> bool" where
  "sys_ok s \<longleftrightarrow> pools_ok s \<and> runtime_ok s \<and> pressures_ok s"

lemma sys_ok_calls [simp]: "sys_ok (s\<lparr>calls := c\<rparr>) = sys_ok s"
  by (simp add: sys_ok_def pools_ok_def runtime_ok_def pressures_ok_def)

interpretation ok: call_frame "inv_rel sys_ok"
  by (rule call_frame_inv) simp

lemma ok_keepsI: "(\<And>s. sys_ok s \<Longrightarrow> sys_ok (snd (run_state m s))) \<Longrightarrow> ok.keeps m"
  by (simp add: state_io_rel_def inv_rel_def)

lemma ok_keepsD: "ok.keeps m \<Longrightarrow> sys_ok s \<Longrightarrow> sys_ok (snd (run_state m s))"
  by (simp add: state_io_rel_def inv_rel_def)


lemma ok_ensure: "ok.keeps (ensurePodRuntimeStateInitialized n)"
  by (rule ok_keepsI)
    (auto simp: ensurePodRuntimeStateInitialized_def sys_ok_def pools_ok_def runtime_ok_def pressures_ok_def)

lemma gm_ok_clean_pools: "gm_ok pools \<Longrightarrow> gm_ok (clean_pools n pools)"
  by (simp add: clean_pools_def keys_map_snd del: map_map)

lemma ok_cleanup: "ok.keeps (cleanupPodState n)"
  by (rule ok_keepsI)
    (auto simp: cleanupPodState_def sys_ok_def pools_ok_def runtime_ok_def pressures_ok_def
      gm_ok_clean_pools clean_pools_def map_of_map_snd pool_ok_clean keys_map_snd simp del: map_map)

lemma pools_ok_update:
  assumes "\<And>p. pool_ok p \<Longrightarrow> pool_ok (f p)" and "pools_ok s"
  shows "pools_ok (snd (run_state (update_pool n f) s))"
  using assms by (auto simp: update_pool_def pools_ok_def split: option.splits if_splits)

lemma ok_update_pool:
  assumes "\<And>p. pool_ok p \<Longrightarrow> pool_ok (f p)"
  shows "ok.keeps (update_pool n f)"
proof (rule ok_keepsI)
  fix s assume "sys_ok s"
  moreover have "podRuntimeState (snd (run_state (update_pool n f) s)) = podRuntimeState s"
    "PressureState (snd (run_state (update_pool n f) s)) = PressureState s"
    by (simp_all add: update_pool_def)
  ultimately show "sys_ok (snd (run_state (update_pool n f) s))"
    using pools_ok_update [of f, OF assms] by (simp add: sys_ok_def runtime_ok_def pressures_ok_def)
qed

lemma ok_create: "ok.keeps (State_Monad.update (\<lambda>s. s\<lparr>cpuPools := snd (getOrCreateCPUPool n k (cpuPools s))\<rparr>))"
  by (rule ok_keepsI)
    (auto simp: sys_ok_def pools_ok_def runtime_ok_def pressures_ok_def getOrCreateCPUPool_def pool_ok_new
      Let_def split: option.splits if_splits)

lemma ok_updateCPUPool: "ok.keeps (updateCPUPoolForPod pod mk)"
  unfolding updateCPUPoolForPod_def
  by (auto split: option.split
      intro!: ok.keeps_return ok.keeps_bind ok.keeps_get ok_create ok_update_pool register_pod_spec(1))

lemma ok_checkAndPreempt:
  assumes "env_orders E"
  shows "ok.keeps (checkAndPreemptForPod E pod cs cpu crit)"
proof (rule ok_keepsI)
  fix s assume ok: "sys_ok s"
  then have "pools_ok s" by (simp add: sys_ok_def)
  from touches_checkAndPreempt [OF this assms, of pod crit cs cpu] ok
  show "sys_ok (snd (run_state (checkAndPreemptForPod E pod cs cpu crit) s))"
    by (auto simp: touches_def sys_ok_def runtime_ok_def pressures_ok_def)
qed

lemma ok_pressure:
  assumes "env_orders E"
  shows "ok.keeps (HandleNodeCPUPressure E n)"
proof (rule ok_keepsI)
  fix s assume ok: "sys_ok s"
  let ?s' = "snd (run_state (HandleNodeCPUPressure E n) s)"
  obtain new p where "?s' = s\<lparr>calls := calls s @ new, PressureState := p\<rparr>" "pressures_ok s \<longrightarrow> pressures_ok ?s'"
    using handler_effect [OF assms refl] by metis
  then show "sys_ok ?s'" using ok unfolding sys_ok_def by (auto simp: pools_ok_def runtime_ok_def)
qed

lemma ok_recovery: "ok.keeps (handleCPURecovery E n)"
proof (rule ok_keepsI)
  fix s assume ok: "sys_ok s"
  let ?s' = "snd (run_state (handleCPURecovery E n) s)"
  have "cpuPools ?s' = cpuPools s" using recovery_lowers [of s E n] by (simp add: lowers_def)
  moreover have "runtime_ok ?s'" using runtime_ok_lowers recovery_lowers ok by (simp add: sys_ok_def) blast
  moreover have "PressureState (after_reverts E n s) = PressureState s"
    by (rule pressure_reverts)
  then have "pressures_ok ?s'"
    using ok by (auto simp: run_handleCPURecovery Let_def pressures_ok_def sys_ok_def)
  ultimately show "sys_ok ?s'" using ok by (simp add: sys_ok_def pools_ok_def)
qed

lemma ok_Reconcile:
  assumes "env_orders E"
  shows "ok.keeps (Reconcile E ns n)"
  by (rule ok.keeps_Reconcile)
    (simp_all add: ok_cleanup ok_ensure ok_create ok_checkAndPreempt [OF assms] ok_updateCPUPool
      ok_pressure [OF assms] ok_recovery inv_rel_def sys_ok_def pools_ok_def runtime_ok_def pressures_ok_def)

section \<open>Helpers for the properties\<close>

lemma containsString_iff: "containsString xs s \<longleftrightarrow> s \<in> set xs"
  by (induction xs) auto

lemma remove_loop_filter: "remove_loop xs s acc = acc @ [x \<leftarrow> xs. x \<noteq> s]"
  by (induction xs arbitrary: acc) auto

lemma removeString_filter: "removeString xs s = [x \<leftarrow> xs. x \<noteq> s]"
  by (simp add: removeString_def remove_loop_filter)

text \<open>
  What forgetting a pod means. In a pool: every registration of the pod is gone and its load given
  back, and all else is as before. In the tables: every pool is still there and has forgotten the pod,
  the pod has no runtime state, and nothing else has changed.
\<close>

definition forgotten_in :: "string \<Rightarrow> CPUPool \<Rightarrow> CPUPool \<Rightarrow> bool" where
  "forgotten_in pod p q \<longleftrightarrow> pool_NodeName q = pool_NodeName p \<and> (balanced p \<longrightarrow> balanced q) \<and>
     (\<forall>i m. registered q i m = (if m = pod then None else registered p i m)) \<and>
     (\<forall>i. has_core q i = has_core p i \<and> usage q i = usage p i - cpu_of (registered p i pod))"

definition forgets :: "string \<Rightarrow> sys \<Rightarrow> sys \<Rightarrow> bool" where
  "forgets pod s t \<longleftrightarrow>
     (\<forall>node. case map_of (cpuPools s) node of
        None \<Rightarrow> map_of (cpuPools t) node = None
      | Some p \<Rightarrow> (\<exists>q. map_of (cpuPools t) node = Some q \<and> forgotten_in pod p q)) \<and>
     map_of (podRuntimeState t) = (map_of (podRuntimeState s))(pod := None) \<and>
     lastCpuBusyState t = lastCpuBusyState s \<and> PressureState t = PressureState s \<and>
     ProcessingNodes t = ProcessingNodes s \<and> Timers t = Timers s"

lemma forgotten_clean: "pool_ok p \<Longrightarrow> forgotten_in pod p (clean_pool pod p)"
  by (simp add: forgotten_in_def clean_pool_simps balanced_clean) (simp add: clean_pool_def)

lemma forgets_cleanup:
  assumes "pools_ok s"
  shows "forgets pod s (snd (run_state (cleanupPodState pod) s))"
proof -
  have "forgotten_in pod p (clean_pool pod p)" if "map_of (cpuPools s) node = Some p" for node p
    using assms that by (intro forgotten_clean) (auto simp: pools_ok_def)
  then show ?thesis
    by (auto simp: forgets_def cleanupPodState_def clean_pools_def map_of_map_snd split: option.split)
qed

lemma forgets_calls: "forgets pod s (t\<lparr>calls := c\<rparr>) = forgets pod s t"
  by (simp add: forgets_def cong: option.case_cong)

lemma forgets_pool:
  assumes "forgets pod s t" and "map_of (cpuPools s) node = Some p"
  obtains q where "map_of (cpuPools t) node = Some q" and "forgotten_in pod p q"
proof -
  have "case map_of (cpuPools s) node of None \<Rightarrow> map_of (cpuPools t) node = None
      | Some p \<Rightarrow> (\<exists>q. map_of (cpuPools t) node = Some q \<and> forgotten_in pod p q)"
    using assms(1) by (simp add: forgets_def)
  then show ?thesis using assms(2) that by auto
qed

text \<open>The example: two pods share core 2 of a node, and one of them, with runtime state, is forgotten.\<close>

definition demo_two_sys :: sys where
  "demo_two_sys = demo_sys\<lparr>podRuntimeState := [(''p'', ''hi''), (''q'', ''low'')],
     cpuPools := [(''worker'', addPodToCore 2 (demo_pod ''q'' ''High'' 200 [2])
       (addPodToCore 2 (demo_pod ''p'' ''Low'' 350 [2]) (new_pool ''worker'' 8)))]\<rparr>"

lemma pools_ok_demo_two: "pools_ok demo_two_sys"
  by (simp add: pools_ok_def demo_two_sys_def pool_ok_add pool_ok_new)

lemma forgets_demo_two:
  assumes "forgets ''p'' demo_two_sys t"
  shows "\<exists>p. map_of (cpuPools t) ''worker'' = Some p \<and> registered p 2 ''p'' = None \<and>
      registered p 2 ''q'' = Some (demo_pod ''q'' ''High'' 200 [2]) \<and> usage p 2 = 200"
    and "map_of (podRuntimeState t) ''p'' = None" and "map_of (podRuntimeState t) ''q'' = Some ''low''"
proof -
  define a where "a = addPodToCore 2 (demo_pod ''p'' ''Low'' 350 [2]) (new_pool ''worker'' 8)"
  define b where "b = addPodToCore 2 (demo_pod ''q'' ''High'' 200 [2]) a"
  have core: "has_core (new_pool ''worker'' 8) 2" by (simp add: has_core_def new_pool_cores)
  have pods: "pi_Name (demo_pod n c m cs) = n" "CPUMillis (demo_pod n c m cs) = m" for n c m cs
    by (simp_all add: demo_pod_def)
  have "usage (new_pool ''worker'' 8) 2 = 0" by (simp add: usage_def new_pool_cores)
  then have ub: "usage b 2 = 550" using core by (simp add: a_def b_def usage_add pods)
  have rb: "registered b 2 ''p'' = Some (demo_pod ''p'' ''Low'' 350 [2])"
    "registered b 2 ''q'' = Some (demo_pod ''q'' ''High'' 200 [2])"
    using core by (simp_all add: a_def b_def registered_add pods)
  have "map_of (cpuPools demo_two_sys) ''worker'' = Some b" by (simp add: demo_two_sys_def a_def b_def)
  then obtain q where q: "map_of (cpuPools t) ''worker'' = Some q" "forgotten_in ''p'' b q"
    by (rule forgets_pool [OF assms])
  have "registered q 2 ''p'' = None" "registered q 2 ''q'' = registered b 2 ''q''"
    "usage q 2 = usage b 2 - cpu_of (registered b 2 ''p'')"
    using q(2) by (simp_all add: forgotten_in_def)
  then show "\<exists>p. map_of (cpuPools t) ''worker'' = Some p \<and> registered p 2 ''p'' = None \<and>
      registered p 2 ''q'' = Some (demo_pod ''q'' ''High'' 200 [2]) \<and> usage p 2 = 200"
    using q(1) by (intro exI [of _ q]) (simp add: ub rb cpu_of_def pods)
  have "map_of (podRuntimeState t) = (map_of [(''p'', ''hi''), (''q'', ''low'')])(''p'' := None)"
    using assms by (simp add: forgets_def demo_two_sys_def)
  then show "map_of (podRuntimeState t) ''p'' = None" "map_of (podRuntimeState t) ''q'' = Some ''low''" by simp_all
qed

section \<open>Properties\<close>

text \<open>
  C13: deleting a McKube that has the finalizer forgets its pod before the finalizer goes: the pod has
  no runtime state and no registration on any core of any node and its load is given back; every pool
  is still there, with its cores, its balance and the registrations of other pods, and no other entry
  of any table changes. The only call after the fetch removes exactly the finalizer, and an error of
  it is returned. Without the finalizer nothing is changed and nothing sent.
\<close>

theorem Reconcile_deletion:
  assumes "on_get_mckube E (calls s) ns n = Inr rt" and "mk_DeletionTimestamp rt \<noteq> None" and "pools_ok s"
    and "PodName (Spec rt) \<noteq> ''''"
  shows "let r = run_state (Reconcile E ns n) s; s' = snd r;
      upd = rt\<lparr>mk_Finalizers := [f \<leftarrow> mk_Finalizers rt. f \<noteq> mckubeFinalizer]\<rparr> in
    (if mckubeFinalizer \<in> set (mk_Finalizers rt)
     then calls s' = calls s @ [GetMcKube ns n, UpdateMcKube upd] \<and>
       fst r = Returned (NoRequeue, case on_update_mckube E (calls s @ [GetMcKube ns n]) upd of
         Inl e \<Rightarrow> Some e | Inr _ \<Rightarrow> None) \<and>
       forgets (PodName (Spec rt)) s s'
     else s' = s\<lparr>calls := calls s @ [GetMcKube ns n]\<rparr> \<and> fst r = Returned (NoRequeue, None))"
proof (cases "mckubeFinalizer \<in> set (mk_Finalizers rt)")
  case True
  let ?pod = "PodName (Spec rt)" and ?r = "run_state (Reconcile E ns n) s"
  let ?clean = "snd (run_state (cleanupPodState ?pod) s)"
  let ?upd = "rt\<lparr>mk_Finalizers := [f \<leftarrow> mk_Finalizers rt. f \<noteq> mckubeFinalizer]\<rparr>"
  have s': "snd ?r = ?clean\<lparr>calls := calls s @ [GetMcKube ns n, UpdateMcKube ?upd]\<rparr>"
    and res: "fst ?r = Returned (NoRequeue, case on_update_mckube E (calls s @ [GetMcKube ns n]) ?upd of
      Inl e \<Rightarrow> Some e | Inr _ \<Rightarrow> None)"
    using assms True
    by (simp_all add: Reconcile_def get_mckube_def reconcile_deleted_def containsString_iff removeString_filter
        update_mckube_def cleanupPodState_def split: sum.split)
  show ?thesis
    unfolding Let_def s' res using True forgets_cleanup [OF assms(3)] by (simp add: forgets_calls)
next
  case False
  then show ?thesis using assms
    by (simp add: Reconcile_def get_mckube_def reconcile_deleted_def containsString_iff)
qed

definition demo_deleted :: McKube where
  "demo_deleted = (demo_mckube None)\<lparr>mk_Finalizers := [''x'', mckubeFinalizer], mk_DeletionTimestamp := Some 1\<rparr>"

theorem Reconcile_deletion_witness:
  "let E = demo_env\<lparr>on_get_mckube := \<lambda>_ _ _. Inr demo_deleted\<rparr>;
     s' = snd (run_state (Reconcile E ''default'' ''m'') demo_two_sys) in
   calls s' = [GetMcKube ''default'' ''m'', UpdateMcKube (demo_deleted\<lparr>mk_Finalizers := [''x'']\<rparr>)] \<and>
   map_of (podRuntimeState s') ''p'' = None \<and>
   (\<exists>p. map_of (cpuPools s') ''worker'' = Some p \<and> registered p 2 ''p'' = None \<and>
      registered p 2 ''q'' = Some (demo_pod ''q'' ''High'' 200 [2]) \<and> usage p 2 = 200)"
proof -
  let ?E = "demo_env\<lparr>on_get_mckube := \<lambda>_ _ _. Inr demo_deleted\<rparr>"
  let ?s' = "snd (run_state (Reconcile ?E ''default'' ''m'') demo_two_sys)"
  have get: "on_get_mckube ?E (calls demo_two_sys) ''default'' ''m'' = Inr demo_deleted" by simp
  have mk: "mk_DeletionTimestamp demo_deleted \<noteq> None" "PodName (Spec demo_deleted) = ''p''"
    "mk_Finalizers demo_deleted = [''x'', mckubeFinalizer]" "''x'' \<noteq> mckubeFinalizer" "calls demo_two_sys = []"
    by (simp_all add: demo_deleted_def demo_mckube_def mckubeFinalizer_def demo_two_sys_def demo_sys_def)
  have "calls ?s' = [GetMcKube ''default'' ''m'', UpdateMcKube (demo_deleted\<lparr>mk_Finalizers := [''x'']\<rparr>)] \<and>
      forgets ''p'' demo_two_sys ?s'"
    using Reconcile_deletion [OF get mk(1) pools_ok_demo_two] by (simp add: mk Let_def)
  then show ?thesis unfolding Let_def using forgets_demo_two [of ?s'] by simp
qed

text \<open>
  C14: before a McKube has its finalizer, its pod name and its node, reconciling it changes no table:
  the controller registers nothing it could not clean up. The finalizer is added by the first
  reconcile that finds it missing, at the end of the list and with no other call, and the request is
  queued again.
\<close>

theorem Reconcile_guarded:
  assumes "on_get_mckube E (calls s) ns n = Inr rt" and "mk_DeletionTimestamp rt = None"
  shows "let r = run_state (Reconcile E ns n) s in
    (mckubeFinalizer \<notin> set (mk_Finalizers rt) \<or> PodName (Spec rt) = '''' \<or> Node (Spec rt) = '''' \<longrightarrow>
      only_calls s (snd r)) \<and>
    (mckubeFinalizer \<notin> set (mk_Finalizers rt) \<longrightarrow>
      (let upd = rt\<lparr>mk_Finalizers := mk_Finalizers rt @ [mckubeFinalizer]\<rparr> in
       calls (snd r) = calls s @ [GetMcKube ns n, UpdateMcKube upd] \<and>
       (fst r = Returned (Requeue, None) \<or>
        (\<exists>e. on_update_mckube E (calls s @ [GetMcKube ns n]) upd = Inl e \<and> fst r = Returned (NoRequeue, Some e)))))"
proof -
  let ?s1 = "s\<lparr>calls := calls s @ [GetMcKube ns n]\<rparr>"
  have get: "run_state (get_mckube E ns n) s = (Inr rt, ?s1)" using assms(1) by (simp add: get_mckube_def)
  have s1: "only_calls s ?s1" by (rule only_calls_add)
  have bind: "only_calls ?s1 (snd (run_state (bind_node E rt) ?s1))"
    by (rule only_calls.keepsD)
      (auto simp: bind_node_def split: sum.split
        intro!: only_calls.keeps_bind only_calls.keeps_return only_calls.keeps_calls)
  have fin: "run_state (add_finalizer E rt) ?s1 =
      (case on_update_mckube E (calls ?s1) (rt\<lparr>mk_Finalizers := mk_Finalizers rt @ [mckubeFinalizer]\<rparr>) of
         Inl e \<Rightarrow> (NoRequeue, Some e) | Inr _ \<Rightarrow> (Requeue, None),
       s\<lparr>calls := calls s @ [GetMcKube ns n, UpdateMcKube (rt\<lparr>mk_Finalizers := mk_Finalizers rt @ [mckubeFinalizer]\<rparr>)]\<rparr>)"
    by (simp add: add_finalizer_def update_mckube_def)
  show ?thesis
    using assms(2) s1 only_calls_add only_calls_trans [OF s1 bind]
    by (auto simp: Reconcile_def get fin containsString_iff Let_def case_prod_beta' split: sum.split)
qed

theorem Reconcile_guarded_witness:
  "let E = demo_env\<lparr>on_get_mckube := \<lambda>_ _ _. Inr (demo_mckube None)\<rparr> in
   only_calls demo_sys (snd (run_state (Reconcile E ''default'' ''m'') demo_sys))"
proof -
  let ?E = "demo_env\<lparr>on_get_mckube := \<lambda>_ _ _. Inr (demo_mckube None)\<rparr>"
  have "on_get_mckube ?E (calls demo_sys) ''default'' ''m'' = Inr (demo_mckube None)" by simp
  from Reconcile_guarded [OF this] show ?thesis by (simp add: demo_mckube_def Let_def)
qed

text \<open>Handling pressure or recovery does not change the record of the last busy state.\<close>

definition same_busy :: "sys \<Rightarrow> sys \<Rightarrow> bool" where
  "same_busy s t \<longleftrightarrow> lastCpuBusyState t = lastCpuBusyState s"

interpretation same_busy: call_frame same_busy
  by unfold_locales (simp_all add: same_busy_def)

lemma busy_recovery: "same_busy.keeps (handleCPURecovery E n)"
  by (rule same_busy.keepsI) (use recovery_lowers in \<open>simp add: lowers_def same_busy_def\<close>)

lemma busy_pressure: "same_busy.keeps (HandleNodeCPUPressure E n)"
  by (rule same_busy.keeps_handle) (simp add: same_busy_def)

definition node_busy :: "env \<Rightarrow> call list \<Rightarrow> string \<Rightarrow> bool option" where
  "node_busy E h n = (case on_get_node E h n of
     Inl _ \<Rightarrow> None
   | Inr node \<Rightarrow> map_option (\<lambda>v. trim_space v = ''true'') (map_of (node_Annotations node) AnnCpuBusyKey))"

lemma run_reconcile_pressure:
  assumes "n \<noteq> ''''"
  shows "run_state (reconcile_pressure E n) s =
    (let s1 = s\<lparr>calls := calls s @ [GetNode n]\<rparr> in
     case node_busy E (calls s) n of
       None \<Rightarrow> ((), s1)
     | Some b \<Rightarrow>
         if map_of (lastCpuBusyState s) n = Some b then ((), s1)
         else run_state (if b then HandleNodeCPUPressure E n else handleCPURecovery E n)
           (s1\<lparr>lastCpuBusyState := gm_put n b (lastCpuBusyState s)\<rparr>))"
  using assms
  by (auto simp: reconcile_pressure_def get_node_def node_busy_def Let_def split: sum.split option.split)

text \<open>
  C15: pressure and recovery are dispatched on changes only. The dispatch step at the end of a
  reconcile fetches the node; if its annotation shows a busy state other than the last one recorded
  (or none was recorded), that state is recorded and exactly then the handler for it runs, that of
  pressure for busy and that of recovery for idle. Without the annotation nothing else happens.
  Afterwards the record is the state shown, and as long as the annotation shows the same, the next
  dispatch for the node only fetches the node.
\<close>

theorem reconcile_pressure_on_change:
  assumes "n \<noteq> ''''" and "s1 = snd (run_state (reconcile_pressure E n) s)"
  shows "let fetched = s\<lparr>calls := calls s @ [GetNode n]\<rparr> in
    case node_busy E (calls s) n of
      None \<Rightarrow> s1 = fetched
    | Some b \<Rightarrow>
        (map_of (lastCpuBusyState s) n = Some b \<longrightarrow> s1 = fetched) \<and>
        (map_of (lastCpuBusyState s) n \<noteq> Some b \<longrightarrow>
          s1 = snd (run_state (if b then HandleNodeCPUPressure E n else handleCPURecovery E n)
            (fetched\<lparr>lastCpuBusyState := gm_put n b (lastCpuBusyState s)\<rparr>))) \<and>
        map_of (lastCpuBusyState s1) n = Some b \<and>
        (node_busy E (calls s1) n = Some b \<longrightarrow>
          run_state (reconcile_pressure E n) s1 = ((), s1\<lparr>calls := calls s1 @ [GetNode n]\<rparr>))"
proof (cases "node_busy E (calls s) n")
  case None
  then show ?thesis unfolding assms(2) by (simp add: run_reconcile_pressure [OF assms(1)] Let_def)
next
  case (Some b)
  let ?rec = "s\<lparr>calls := calls s @ [GetNode n], lastCpuBusyState := gm_put n b (lastCpuBusyState s)\<rparr>"
  let ?h = "if b then HandleNodeCPUPressure E n else handleCPURecovery E n"
  have s1: "s1 = (if map_of (lastCpuBusyState s) n = Some b then s\<lparr>calls := calls s @ [GetNode n]\<rparr>
      else snd (run_state ?h ?rec))"
    unfolding assms(2) run_reconcile_pressure [OF assms(1)] using Some by (simp add: Let_def)
  have "lastCpuBusyState (snd (run_state ?h t)) = lastCpuBusyState t" for t
    using same_busy.keepsD [OF busy_pressure] same_busy.keepsD [OF busy_recovery]
    by (simp add: same_busy_def)
  then have rec: "map_of (lastCpuBusyState s1) n = Some b" unfolding s1 by simp
  then have "node_busy E (calls s1) n = Some b \<longrightarrow>
      run_state (reconcile_pressure E n) s1 = ((), s1\<lparr>calls := calls s1 @ [GetNode n]\<rparr>)"
    by (simp add: run_reconcile_pressure [OF assms(1)] Let_def)
  then show ?thesis using s1 rec Some by (simp add: Let_def)
qed

definition busy_node :: KNode where
  "busy_node = \<lparr>node_Name = ''worker'', node_Annotations = [(AnnCpuBusyKey, '' true '')], node_Taints = [],
     node_Addresses = []\<rparr>"

theorem reconcile_pressure_on_change_witness:
  "let E = demo_env\<lparr>on_get_node := \<lambda>_ _. Inr busy_node\<rparr>;
     s1 = snd (run_state (reconcile_pressure E ''worker'') demo_sys) in
   s1 = snd (run_state (HandleNodeCPUPressure E ''worker'')
     (demo_sys\<lparr>calls := [GetNode ''worker''], lastCpuBusyState := [(''worker'', True)]\<rparr>)) \<and>
   run_state (reconcile_pressure E ''worker'') s1 = ((), s1\<lparr>calls := calls s1 @ [GetNode ''worker'']\<rparr>)"
proof -
  let ?E = "demo_env\<lparr>on_get_node := \<lambda>_ _. Inr busy_node\<rparr>"
  have trim: "trim_space '' true '' = ''true''" by code_simp
  have busy: "node_busy ?E h ''worker'' = Some True" for h
    by (simp add: node_busy_def busy_node_def trim)
  have none: "map_of (lastCpuBusyState demo_sys) ''worker'' = None" "calls demo_sys = []"
    "gm_put ''worker'' True (lastCpuBusyState demo_sys) = [(''worker'', True)]"
    by (simp_all add: demo_sys_def)
  define s1 where "s1 = snd (run_state (reconcile_pressure ?E ''worker'') demo_sys)"
  have "s1 = snd (run_state (HandleNodeCPUPressure ?E ''worker'')
      (demo_sys\<lparr>calls := [GetNode ''worker''], lastCpuBusyState := [(''worker'', True)]\<rparr>)) \<and>
    map_of (lastCpuBusyState s1) ''worker'' = Some True \<and>
    run_state (reconcile_pressure ?E ''worker'') s1 = ((), s1\<lparr>calls := calls s1 @ [GetNode ''worker'']\<rparr>)"
    using reconcile_pressure_on_change [OF _ s1_def] by (auto simp: Let_def busy none)
  then show ?thesis unfolding Let_def s1_def [symmetric] by blast
qed

section \<open>Registration under an allocated core\<close>

lemma run_register_rt:
  assumes "AllocatedCore (Status rt) = a" "a \<noteq> ''''" "parseCoreSet a = Some cores"
    and "RTSettings (Spec rt) = Some rts" "map_of (cpuPools s) (NodeName pod) = Some p"
  defines "cpu \<equiv> rt_cpuMillis (effectiveRuntime (runtime_state s (pod_Name pod)) rts) (Period rts)"
  shows "run_state (register_rt E rt rts c pod) s =
    (if list_all (same_registration p (pod_Name pod) cpu (Criticality (Spec rt))) cores then (Returned rt, s)
     else let s1 = snd (run_state (checkAndPreemptForPod E pod cores cpu (Criticality (Spec rt))) s);
              r = run_state (updateCPUPoolForPod pod rt) s1 in (then_with rt (fst r), snd r))"
  using assms
  by (auto simp: register_rt_def init_allocated_def getOrCreateCPUPool_def pool_at_def Let_def case_prod_beta')

text \<open>
  C20: a pod that preemption moved away is booked twice after its load changes. Let the allocated core
  differ from the spec's core, both on the node, and the pod be registered on the allocated core with
  its criticality but another load than its runtime state now gives. Then reconciling registers it on
  the spec's core with the new load and leaves the old registration where it was, so the next
  reconcile finds it unregistered again.
\<close>

theorem register_rt_after_migration:
  assumes "AllocatedCore (Status rt) = a" "a \<noteq> ''''" "parseCoreSet a = Some [a1]"
    and "RTSettings (Spec rt) = Some rts" "Core rts = Some c" "parseCoreSet c = Some [c1]" "a1 \<noteq> c1"
    and "pools_ok s" "env_orders E" "NodeName pod \<noteq> ''''"
    and "map_of (cpuPools s) (NodeName pod) = Some p" "has_core p c1"
    and "registered p a1 (pod_Name pod) = Some old"
    and "CPUMillis old \<noteq> rt_cpuMillis (effectiveRuntime (runtime_state s (pod_Name pod)) rts) (Period rts)"
    and "pod_Name pod \<notin> weaker s (NodeName pod) (Criticality (Spec rt))"
  shows "let s' = snd (run_state (register_rt E rt rts c pod) s); p' = pool_at s' (NodeName pod);
      cpu = rt_cpuMillis (effectiveRuntime (runtime_state s (pod_Name pod)) rts) (Period rts) in
    registered p' a1 (pod_Name pod) = Some old \<and>
    (\<exists>v. registered p' c1 (pod_Name pod) = Some v \<and> CPUMillis v = cpu) \<and>
    \<not> same_registration p' (pod_Name pod) cpu (Criticality (Spec rt)) a1"
proof -
  let ?n = "NodeName pod" and ?crit = "Criticality (Spec rt)"
  define cpu where "cpu = rt_cpuMillis (effectiveRuntime (runtime_state s (pod_Name pod)) rts) (Period rts)"
  define s1 where "s1 = snd (run_state (checkAndPreemptForPod E pod [a1] cpu ?crit) s)"
  define p' where "p' = pool_at (snd (run_state (updateCPUPoolForPod pod rt) s1)) ?n"
  have p: "pool_at s ?n = p" using assms(11) by (simp add: pool_at_def)
  have "\<not> list_all (same_registration p (pod_Name pod) cpu ?crit) [a1]"
    using assms(13,14) by (simp add: same_registration_iff cpu_def)
  then have run: "snd (run_state (register_rt E rt rts c pod) s) = snd (run_state (updateCPUPoolForPod pod rt) s1)"
    unfolding run_register_rt [OF assms(1-4,11)] cpu_def [symmetric] by (simp add: s1_def Let_def)
  have t: "touches ?n (weaker s ?n ?crit) s s1"
    unfolding s1_def using assms(8,9) by (rule touches_checkAndPreempt)
  then have s1: "pools_ok s1" "runtime_state s1 (pod_Name pod) = runtime_state s (pod_Name pod)"
    "registered (pool_at s1 ?n) a1 (pod_Name pod) = Some old" "has_core (pool_at s1 ?n) c1"
    "map_of (cpuPools s1) ?n \<noteq> None"
    using assms(8,11-13,15) p by (simp_all add: touches_def runtime_state_def)
  have np: "node_pool s1 ?n = pool_at s1 ?n"
    using s1(5) by (auto simp: node_pool_def getOrCreateCPUPool_def pool_at_def)
  have p': "p' = register_pod (pod_info s1 pod rt rts [c1]) (pool_at s1 ?n)"
    unfolding p'_def run_updateCPUPoolForPod [OF assms(4,5,10,6)] np by (simp add: pool_at_def)
  have "registered p' a1 (pod_Name pod) = Some old"
    unfolding p' using register_pod_spec(4) [OF pool_ok_at [OF s1(1)]] assms(7) s1(3)
    by (simp add: pod_info_def)
  moreover have "\<exists>v. registered p' c1 (pod_Name pod) = Some v \<and> CPUMillis v = cpu"
    unfolding p' using register_pod_spec(5) [OF pool_ok_at [OF s1(1)], where i = c1 and info = "pod_info s1 pod rt rts [c1]"]
      s1(2,4) by (auto simp: pod_info_def cpu_def)
  ultimately show ?thesis
    using assms(14) unfolding Let_def run p'_def [symmetric] cpu_def [symmetric]
    by (auto simp: same_registration_iff)
qed

text \<open>The pod \<open>p\<close> after preemption moved it from its core 2 to core 3 of its node.\<close>

definition moved_info :: PodInfo where
  "moved_info = \<lparr>pi_Name = ''p'', pi_Namespace = ''default'', pi_Criticality = ''Low'',
     CPUMillis = rt_cpuMillis 300 1000 + 1, CoreSet = [2]\<rparr>"

definition moved_sys :: sys where
  "moved_sys = demo_sys\<lparr>cpuPools := [(''worker'', addPodToCore 3 moved_info (new_pool ''worker'' 8))]\<rparr>"

definition moved_mckube :: McKube where
  "moved_mckube = (demo_mckube (Some ''2''))\<lparr>Status := \<lparr>CurrentRuntime = ''low'', LastOverrunTime = None,
     AllocatedCore = ''3''\<rparr>\<rparr>"

theorem register_rt_after_migration_witness:
  "let rts = \<lparr>Period = 1000, RuntimeLow = 300, RuntimeHi = 500, Core = Some ''2''\<rparr>;
       p' = pool_at (snd (run_state (register_rt demo_env moved_mckube rts ''2'' demo_rt_pod) moved_sys)) ''worker'' in
   registered p' 3 ''p'' = Some moved_info \<and> registered p' 2 ''p'' \<noteq> None"
proof -
  let ?rts = "\<lparr>Period = 1000, RuntimeLow = 300, RuntimeHi = 500, Core = Some ''2''\<rparr>"
  let ?p = "addPodToCore 3 moved_info (new_pool ''worker'' 8)"
  have parse: "parseCoreSet ''2'' = Some [2]" "parseCoreSet ''3'' = Some [3]" by code_simp+
  have mk: "AllocatedCore (Status moved_mckube) = ''3''" "RTSettings (Spec moved_mckube) = Some ?rts"
    "Criticality (Spec moved_mckube) = ''Low''" "pod_Name demo_rt_pod = ''p''" "NodeName demo_rt_pod = ''worker''"
    by (simp_all add: moved_mckube_def demo_mckube_def demo_rt_pod_def)
  have pool: "map_of (cpuPools moved_sys) ''worker'' = Some ?p" by (simp add: moved_sys_def)
  have none: "registered (new_pool ''worker'' 8) i n = None" for i n
    by (auto simp: registered_def pods_on_def new_pool_def split: option.split dest!: map_of_SomeD)
  have cores: "has_core (new_pool ''worker'' 8) 2" "has_core (new_pool ''worker'' 8) 3"
    by (simp_all add: has_core_def new_pool_cores)
  have reg: "registered ?p i n = (if i = 3 \<and> n = ''p'' then Some moved_info else None)" for i n
    using cores by (simp add: registered_add none moved_info_def)
  have ok: "pools_ok moved_sys" by (simp add: pools_ok_def moved_sys_def pool_ok_add pool_ok_new)
  have low: "runtime_state moved_sys ''p'' = ''''" by (simp add: runtime_state_def moved_sys_def demo_sys_def gm_str_def)
  have weak: "''p'' \<notin> weaker moved_sys ''worker'' ''Low''"
    using reg by (auto simp: weaker_def pool_at_def pool moved_info_def split: if_splits)
  have load: "CPUMillis moved_info \<noteq> rt_cpuMillis (effectiveRuntime (runtime_state moved_sys ''p'') ?rts) (Period ?rts)"
    by (simp add: moved_info_def low effectiveRuntime_def)
  show ?thesis
    using register_rt_after_migration [OF mk(1) _ parse(2) mk(2) _ parse(1) _ ok env_orders_demo, of demo_rt_pod ?p moved_info]
      pool reg cores weak load by (simp add: mk(3-5) Let_def) blast
qed

text \<open>
  C22: the event of an RT pod that is being deleted makes the controller forget the pod at once: no
  runtime state and no registration on any core of any node, its load given back; every pool is still
  there, with its cores, its balance and the registrations of other pods, and no other entry of any
  table changes. It lists the McKubes of the pod's namespace and asks for at most one reconcile, of a listed
  McKube of that pod.
\<close>

theorem findObjectsForPod_deletion:
  assumes "pod_Namespace pod = targetNamespace" and "gm_str (pod_Labels pod) rt_label \<noteq> ''''"
    and "pod_DeletionTimestamp pod \<noteq> None" and "pools_ok s"
  shows "let r = run_state (findObjectsForPod E pod) s; s' = snd r in
    calls s' = calls s @ [ListMcKubes (pod_Namespace pod)] \<and> forgets (pod_Name pod) s s' \<and>
    (fst r = [] \<or> (\<exists>items mk. on_list_mckubes E (calls s) (pod_Namespace pod) = Inr items \<and> mk \<in> set items \<and>
      PodName (Spec mk) = pod_Name pod \<and> fst r = [(mk_Namespace mk, mk_Name mk)]))"
proof -
  let ?r = "run_state (findObjectsForPod E pod) s"
  let ?clean = "snd (run_state (cleanupPodState (pod_Name pod)) s)"
  have snd: "snd ?r = ?clean\<lparr>calls := calls s @ [ListMcKubes (pod_Namespace pod)]\<rparr>"
    using assms(1-3) by (simp add: findObjectsForPod_def list_mckubes_def cleanupPodState_def)
  have "fst ?r = (case on_list_mckubes E (calls s) (pod_Namespace pod) of Inl _ \<Rightarrow> []
      | Inr items \<Rightarrow> (case find_mckube (pod_Name pod) items of Some mk \<Rightarrow> [(mk_Namespace mk, mk_Name mk)] | None \<Rightarrow> []))"
    using assms(1-3) by (simp add: findObjectsForPod_def list_mckubes_def cleanupPodState_def)
  then have "fst ?r = [] \<or> (\<exists>items mk. on_list_mckubes E (calls s) (pod_Namespace pod) = Inr items \<and> mk \<in> set items \<and>
      PodName (Spec mk) = pod_Name pod \<and> fst ?r = [(mk_Namespace mk, mk_Name mk)])"
    by (auto split: sum.splits option.splits dest: find_mckube_name)
  then show ?thesis
    unfolding Let_def snd using forgets_cleanup [OF assms(4)] by (simp add: forgets_calls)
qed

theorem findObjectsForPod_deletion_witness:
  "let pod = demo_rt_pod\<lparr>pod_DeletionTimestamp := Some 1\<rparr>;
       s' = snd (run_state (findObjectsForPod demo_env pod) demo_two_sys) in
   calls s' = [ListMcKubes ''default''] \<and>
   map_of (podRuntimeState s') ''p'' = None \<and> map_of (podRuntimeState s') ''q'' = Some ''low'' \<and>
   (\<exists>p. map_of (cpuPools s') ''worker'' = Some p \<and> registered p 2 ''p'' = None \<and>
      registered p 2 ''q'' = Some (demo_pod ''q'' ''High'' 200 [2]) \<and> usage p 2 = 200)"
proof -
  let ?pod = "demo_rt_pod\<lparr>pod_DeletionTimestamp := Some 1\<rparr>"
  let ?s' = "snd (run_state (findObjectsForPod demo_env ?pod) demo_two_sys)"
  have pod: "pod_Namespace ?pod = targetNamespace" "gm_str (pod_Labels ?pod) rt_label \<noteq> ''''"
    "pod_DeletionTimestamp ?pod \<noteq> None"
    by (simp_all add: demo_rt_pod_def targetNamespace_def gm_str_def rt_label_def)
  have "calls demo_two_sys = []" "pod_Name ?pod = ''p''" "pod_Namespace ?pod = ''default''"
    by (simp_all add: demo_two_sys_def demo_sys_def demo_rt_pod_def)
  then have "calls ?s' = [ListMcKubes ''default''] \<and> forgets ''p'' demo_two_sys ?s'"
    using findObjectsForPod_deletion [OF pod pools_ok_demo_two, of demo_env] by (simp add: Let_def)
  then show ?thesis unfolding Let_def using forgets_demo_two [of ?s'] by simp
qed

end
