(* ===== verification/Controller.thy ===== *)
theory Controller
  imports Reconciler
begin

text \<open>
  The controller as a whole: the node events of \<open>internal/ipvs/event_handler.go\<close> with the goroutines
  they start, the endpoint that receives overruns, and the events \<open>SetupWithManager\<close> of
  \<open>mckube_controller.go\<close> connects to the handlers, as a transition system. A handler runs to its
  end within one step; the goroutine of a node event is a step of its own, at any later time.
\<close>

section \<open>Node events\<close>

text \<open>
  What the annotations of a node say: nothing (no readable CPU usage), or whether the node is busy,
  which it is unless the annotation reads as false.
\<close>

definition cpu_event :: "(string, string) gomap \<Rightarrow> bool option" where
  "cpu_event ann =
     (let cpuUsageStr = trim_space (gm_str ann AnnUsageKey) in
      if cpuUsageStr = '''' then None
      else if \<not> parse_float_ok cpuUsageStr then None
      else (let isCpuBusyStr = trim_space (gm_str ann AnnCpuBusyKey) in
            Some (if isCpuBusyStr = '''' then True
                  else case parse_bool isCpuBusyStr of Some busy \<Rightarrow> busy | None \<Rightarrow> True)))"

text \<open>The requests (always none) and the goroutine it starts, which gets the node and the flag.\<close>

definition FindObjectsForNode :: "KNode \<Rightarrow> ((string \<times> string) list \<times> (string \<times> bool) option) act" where
  "FindObjectsForNode node =
     (case cpu_event (node_Annotations node) of
        None \<Rightarrow> State_Monad.return ([], None)
      | Some isCpuBusy \<Rightarrow> do {
          s \<leftarrow> State_Monad.get;
          if map_of (ProcessingNodes s) (node_Name node) = Some True then State_Monad.return ([], None)
          else do {
            State_Monad.update (\<lambda>s. s\<lparr>ProcessingNodes := gm_put (node_Name node) True (ProcessingNodes s)\<rparr>);
            State_Monad.return ([], Some (node_Name node, isCpuBusy))
          }
        })"

definition node_goroutine :: "env \<Rightarrow> string \<times> bool \<Rightarrow> unit act" where
  "node_goroutine E g = (case g of (nodeName, isCpuBusy) \<Rightarrow> do {
     (if isCpuBusy then HandleNodeCPUPressure E nodeName else State_Monad.return ());
     State_Monad.update (\<lambda>s. s\<lparr>ProcessingNodes := gm_del nodeName (ProcessingNodes s)\<rparr>)
   })"

section \<open>The overrun endpoint\<close>

text \<open>The status of the answer; the payload is given as its decoding.\<close>

definition overrun_endpoint :: "env \<Rightarrow> string \<Rightarrow> go_error + OverrunData \<Rightarrow> int act" where
  "overrun_endpoint E verb decoded =
     (if verb \<noteq> ''POST'' then State_Monad.return 405
      else (case decoded of
        Inl e \<Rightarrow> State_Monad.return 400
      | Inr data \<Rightarrow> do { handleOverrunEvent E data; State_Monad.return 200 }))"

section \<open>Transition systems\<close>

text \<open>
  States reachable from a starting state, and an invariant as an interface: a predicate that holds at
  the start and is kept by every step holds in every reachable state.
\<close>

inductive reach :: "('s \<Rightarrow> bool) \<Rightarrow> ('s \<Rightarrow> 's \<Rightarrow> bool) \<Rightarrow> 's \<Rightarrow> bool" for init step where
  start: "init s \<Longrightarrow> reach init step s"
| follow: "reach init step s \<Longrightarrow> step s t \<Longrightarrow> reach init step t"

locale invariant_of =
  fixes init :: "'s \<Rightarrow> bool" and step :: "'s \<Rightarrow> 's \<Rightarrow> bool" and I :: "'s \<Rightarrow> bool"
  assumes I_init: "init s \<Longrightarrow> I s" and I_step: "I s \<Longrightarrow> step s t \<Longrightarrow> I t"
begin

lemma holds: "reach init step s \<Longrightarrow> I s"
  by (induction rule: reach.induct) (auto intro: I_init I_step)

end

section \<open>The controller\<close>

text \<open>
  The state of the controller, the goroutines in flight, and, for the proofs only, how often a node's
  processing flag was cleared by something else than the end of one of its goroutines.
\<close>

record controller =
  vars :: sys
  in_flight :: "(string \<times> bool) list"
  cleared :: "string \<Rightarrow> nat"

definition flagged :: "sys \<Rightarrow> string \<Rightarrow> bool" where
  "flagged s n \<longleftrightarrow> map_of (ProcessingNodes s) n = Some True"

definition handled :: "controller \<Rightarrow> sys \<Rightarrow> controller" where
  "handled c s = c\<lparr>vars := s, cleared := (\<lambda>n. cleared c n + (if flagged (vars c) n \<and> \<not> flagged s n then 1 else 0))\<rparr>"

definition spawn :: "(string \<times> bool) option \<Rightarrow> controller \<Rightarrow> controller" where
  "spawn g c = (case g of None \<Rightarrow> c | Some x \<Rightarrow> c\<lparr>in_flight := in_flight c @ [x]\<rparr>)"

definition started_up :: "controller \<Rightarrow> bool" where
  "started_up c \<longleftrightarrow> c = \<lparr>vars = demo_sys, in_flight = [], cleared = (\<lambda>_. 0)\<rparr>"

inductive ctl_step :: "env \<Rightarrow> controller \<Rightarrow> controller \<Rightarrow> bool" for E where
  reconcile: "ctl_step E c (handled c (snd (run_state (Reconcile E ns n) (vars c))))"
| pod_event: "ctl_step E c (handled c (snd (run_state (findObjectsForPod E pod) (vars c))))"
| overrun: "ctl_step E c (handled c (snd (run_state (overrun_endpoint E verb decoded) (vars c))))"
| taint: "ctl_step E c (handled c (snd (run_state (taint_round E) (vars c))))"
| node_event: "run_state (FindObjectsForNode node) (vars c) = ((reqs, g), s) \<Longrightarrow>
    ctl_step E c (spawn g (c\<lparr>vars := s\<rparr>))"
| finish: "in_flight c = before @ g # after \<Longrightarrow>
    ctl_step E c (c\<lparr>vars := snd (run_state (node_goroutine E g) (vars c)), in_flight := before @ after\<rparr>)"

inductive_cases ctl_stepE: "ctl_step E c d"

text \<open>An invariant of the variables alone: kept by each handler, each event and each goroutine.\<close>

lemma vars_spawn [simp]: "vars (spawn g c) = vars c" "cleared (spawn g c) = cleared c"
  by (simp_all add: spawn_def split: option.split)

lemma vars_invariant:
  assumes "P demo_sys"
    and "\<And>s ns n. P s \<Longrightarrow> P (snd (run_state (Reconcile E ns n) s))"
    and "\<And>s pod. P s \<Longrightarrow> P (snd (run_state (findObjectsForPod E pod) s))"
    and "\<And>s verb decoded. P s \<Longrightarrow> P (snd (run_state (overrun_endpoint E verb decoded) s))"
    and "\<And>s. P s \<Longrightarrow> P (snd (run_state (taint_round E) s))"
    and "\<And>s node. P s \<Longrightarrow> P (snd (run_state (FindObjectsForNode node) s))"
    and "\<And>s g. P s \<Longrightarrow> P (snd (run_state (node_goroutine E g) s))"
  shows "invariant_of started_up (ctl_step E) (\<lambda>c. P (vars c))"
proof
  fix c assume "started_up c"
  then show "P (vars c)" using assms(1) by (simp add: started_up_def)
next
  fix c d assume inv: "P (vars c)" and "ctl_step E c d"
  from this(2) show "P (vars d)"
  proof cases
    case (reconcile ns n)
    then show ?thesis using assms(2) [OF inv] by (simp add: handled_def)
  next
    case (pod_event pod)
    then show ?thesis using assms(3) [OF inv] by (simp add: handled_def)
  next
    case (overrun verb decoded)
    then show ?thesis using assms(4) [OF inv] by (simp add: handled_def)
  next
    case taint
    then show ?thesis using assms(5) [OF inv] by (simp add: handled_def)
  next
    case (node_event node reqs g s)
    then show ?thesis using assms(6) [OF inv, of node] by simp
  next
    case (finish before g after)
    then show ?thesis using assms(7) [OF inv] by simp
  qed
qed

section \<open>The tables stay well formed\<close>

lemma ok_find_objects: "ok.keeps (findObjectsForPod E pod)"
  by (rule ok.keeps_find_objects) (rule ok_cleanup)

lemma ok_taint: "ok.keeps (taint_round E)"
  by (rule ok.keeps_taint) (simp add: inv_rel_def sys_ok_def pools_ok_def runtime_ok_def pressures_ok_def)

lemma ok_overrun: "ok.keeps (overrun_endpoint E verb decoded)"
proof -
  have "ok.keeps (handleOverrunEvent E data)" for data
    by (rule ok.keeps_overrun)
      (auto simp: inv_rel_def sys_ok_def pools_ok_def pressures_ok_def intro: runtime_ok_put)
  then show ?thesis
    unfolding overrun_endpoint_def by (auto split: sum.split intro!: ok.keeps_bind ok.keeps_return)
qed

lemma sys_ok_flags [simp]: "sys_ok (s\<lparr>ProcessingNodes := f\<rparr>) = sys_ok s"
  by (simp add: sys_ok_def pools_ok_def runtime_ok_def pressures_ok_def)

lemma ok_goroutine:
  assumes "env_orders E"
  shows "ok.keeps (node_goroutine E g)"
  unfolding node_goroutine_def
  using assms
  by (auto simp: inv_rel_def split: prod.split
      intro!: ok.keeps_bind ok.keeps_return ok_pressure ok.keeps_update)

lemma run_FindObjectsForNode:
  "run_state (FindObjectsForNode node) s =
    (if cpu_event (node_Annotations node) = None \<or> flagged s (node_Name node) then (([], None), s)
     else (([], Some (node_Name node, the (cpu_event (node_Annotations node)))),
       s\<lparr>ProcessingNodes := gm_put (node_Name node) True (ProcessingNodes s)\<rparr>))"
  by (auto simp: FindObjectsForNode_def flagged_def split: option.split)

lemma ok_handlers:
  assumes "env_orders E"
  shows "ok.keeps (Reconcile E ns n)" "ok.keeps (findObjectsForPod E pod)"
    "ok.keeps (overrun_endpoint E verb decoded)" "ok.keeps (taint_round E)"
    "ok.keeps (FindObjectsForNode node)" "ok.keeps (node_goroutine E g)"
  using assms ok_Reconcile ok_find_objects ok_overrun ok_taint ok_goroutine
  by (auto simp: run_FindObjectsForNode inv_rel_def intro: ok.keepsI)

interpretation tables: invariant_of started_up "ctl_step E" "\<lambda>c. env_orders E \<longrightarrow> sys_ok (vars c)" for E
proof (rule vars_invariant)
  show "env_orders E \<longrightarrow> sys_ok demo_sys"
    by (simp add: sys_ok_def pools_ok_def runtime_ok_def pressures_ok_def demo_sys_def)
qed (use ok_keepsD ok_handlers in blast)+

section \<open>Goroutines in flight\<close>

definition on_node :: "string \<Rightarrow> (string \<times> bool) list \<Rightarrow> nat" where
  "on_node n gs = length [g \<leftarrow> gs. fst g = n]"

lemma on_node_simps [simp]:
  "on_node n [] = 0" "on_node n (g # gs) = (if fst g = n then 1 else 0) + on_node n gs"
  "on_node n (as @ bs) = on_node n as + on_node n bs"
  by (simp_all add: on_node_def)

text \<open>No handler sets a processing flag; node events do that by themselves.\<close>

definition no_new_flag :: "sys \<Rightarrow> sys \<Rightarrow> bool" where
  "no_new_flag s t \<longleftrightarrow> (\<forall>n. flagged t n \<longrightarrow> flagged s n)"

interpretation flags: call_frame no_new_flag
  by unfold_locales (auto simp: no_new_flag_def flagged_def)

definition same_flags :: "sys \<Rightarrow> sys \<Rightarrow> bool" where
  "same_flags s t \<longleftrightarrow> ProcessingNodes t = ProcessingNodes s"

interpretation same_flags: call_frame same_flags
  by unfold_locales (auto simp: same_flags_def)

lemma same_no_new: "same_flags.keeps m \<Longrightarrow> flags.keeps m"
  by (auto simp: state_io_rel_def same_flags_def no_new_flag_def flagged_def)

text \<open>A frame that is free in the pools is kept by registration and preemption.\<close>

context call_frame
begin

lemma keeps_pool_writers:
  assumes "\<And>s p. R s (s\<lparr>cpuPools := p\<rparr>)"
  shows "keeps (updateCPUPoolForPod pod mk)" and "keeps (checkAndPreemptForPod E pod cs cpu crit)"
    and "keeps (State_Monad.update (\<lambda>s. s\<lparr>cpuPools := snd (getOrCreateCPUPool n k (cpuPools s))\<rparr>))"
proof -
  have put_pool: "keeps (update_pool n f)" for n f
    unfolding update_pool_def by (rule keeps_update) (rule assms)
  show create: "keeps (State_Monad.update (\<lambda>s. s\<lparr>cpuPools := snd (getOrCreateCPUPool n k (cpuPools s))\<rparr>))" for n k
    by (rule keeps_update) (rule assms)
  show "keeps (updateCPUPoolForPod pod mk)"
    unfolding updateCPUPoolForPod_def
    by (auto split: option.split intro!: keeps_return keeps_bind keeps_get put_pool create)
  have preempt: "keeps (preemptPod E v n c)" for v n c
    unfolding preemptPod_def Let_def
    by (auto split: sum.split prod.split
        intro!: keeps_bind keeps_calls keeps_get keeps_return put_pool
          keeps_only_calls [OF keeps_affinity] keeps_evict)
  have "keeps (check_core E n cpu crit c)" for n c
    unfolding check_core_def
    by (auto intro!: keeps_bind keeps_get keeps_calls keeps_for_each keeps_return preempt)
  then show "keeps (checkAndPreemptForPod E pod cs cpu crit)"
    unfolding checkAndPreemptForPod_def
    by (auto intro!: keeps_bind keeps_get keeps_return keeps_for_each)
qed

end

lemma same_flags_pressure: "same_flags.keeps (HandleNodeCPUPressure E n)"
  by (rule same_flags.keeps_handle) (simp add: same_flags_def)

lemma flags_cleanup: "flags.keeps (cleanupPodState n)"
  by (rule flags.keepsI) (simp add: cleanupPodState_def no_new_flag_def flagged_def)

lemma flags_handlers:
  "flags.keeps (Reconcile E ns n)" "flags.keeps (findObjectsForPod E pod)"
  "flags.keeps (overrun_endpoint E verb decoded)" "flags.keeps (taint_round E)"
proof -
  have "flags.keeps (handleCPURecovery E n)" for n
    by (rule flags.keeps_recovery) (auto simp: no_new_flag_def flagged_def)
  moreover have "flags.keeps (ensurePodRuntimeStateInitialized n)" for n
    by (rule flags.keepsI) (simp add: ensurePodRuntimeStateInitialized_def no_new_flag_def flagged_def)
  moreover have "flags.keeps (HandleNodeCPUPressure E n)" for n
    by (rule same_no_new [OF same_flags_pressure])
  moreover have "no_new_flag s (s\<lparr>cpuPools := p\<rparr>)" "no_new_flag s (s\<lparr>lastCpuBusyState := b\<rparr>)" for s p b
    by (simp_all add: no_new_flag_def flagged_def)
  ultimately show "flags.keeps (Reconcile E ns n)"
    by (intro flags.keeps_Reconcile flags_cleanup flags.keeps_pool_writers)
  show "flags.keeps (findObjectsForPod E pod)"
    by (rule flags.keeps_find_objects) (rule flags_cleanup)
  show "flags.keeps (taint_round E)"
    by (rule flags.keeps_taint) (simp add: no_new_flag_def flagged_def)
  have "flags.keeps (handleOverrunEvent E data)" for data
    by (rule flags.keeps_overrun) (simp add: no_new_flag_def flagged_def)
  then show "flags.keeps (overrun_endpoint E verb decoded)"
    unfolding overrun_endpoint_def by (auto split: sum.split intro!: flags.keeps_bind flags.keeps_return)
qed

lemma run_goroutine_flags:
  "ProcessingNodes (snd (run_state (node_goroutine E (n, b)) s)) = gm_del n (ProcessingNodes s)"
proof -
  have "ProcessingNodes (snd (run_state (HandleNodeCPUPressure E n) s)) = ProcessingNodes s"
    using same_flags.keepsD [OF same_flags_pressure] by (simp add: same_flags_def)
  then show ?thesis by (simp add: node_goroutine_def case_prod_beta')
qed

definition covered :: "controller \<Rightarrow> bool" where
  "covered c \<longleftrightarrow> (\<forall>n. on_node n (in_flight c) \<le> cleared c n + (if flagged (vars c) n then 1 else 0))"

lemma covered_handled:
  assumes "covered c" and "no_new_flag (vars c) s"
  shows "covered (handled c s)"
  unfolding covered_def
proof
  fix n
  have "on_node n (in_flight c) \<le> cleared c n + (if flagged (vars c) n then 1 else 0)"
    using assms(1) by (simp add: covered_def)
  moreover have "flagged s n \<Longrightarrow> flagged (vars c) n" using assms(2) by (simp add: no_new_flag_def)
  ultimately show "on_node n (in_flight (handled c s)) \<le>
      cleared (handled c s) n + (if flagged (vars (handled c s)) n then 1 else 0)"
    by (auto simp: handled_def)
qed

interpretation exclusion: invariant_of started_up "ctl_step E" covered for E
proof unfold_locales
  fix c assume "started_up c"
  then show "covered c" by (simp add: started_up_def covered_def)
next
  fix c d assume inv: "covered c" and "ctl_step E c d"
  from this(2) show "covered d"
  proof cases
    case (reconcile ns n)
    then show ?thesis using covered_handled [OF inv] flags.keepsD [OF flags_handlers(1)] by simp
  next
    case (pod_event pod)
    then show ?thesis using covered_handled [OF inv] flags.keepsD [OF flags_handlers(2)] by simp
  next
    case (overrun verb decoded)
    then show ?thesis using covered_handled [OF inv] flags.keepsD [OF flags_handlers(3)] by simp
  next
    case taint
    then show ?thesis using covered_handled [OF inv] flags.keepsD [OF flags_handlers(4)] by simp
  next
    case (node_event node reqs g s)
    then show ?thesis using inv
      by (auto simp: run_FindObjectsForNode covered_def spawn_def flagged_def split: if_splits)
  next
    case (finish before g after)
    obtain n b where g: "g = (n, b)" by (cases g)
    have "on_node m (in_flight d) \<le> cleared d m + (if flagged (vars d) m then 1 else 0)" for m
    proof -
      have "on_node m (in_flight c) \<le> cleared c m + (if flagged (vars c) m then 1 else 0)"
        using inv by (simp add: covered_def)
      then show ?thesis
        unfolding finish(1) using finish(2)
        by (simp add: g flagged_def run_goroutine_flags split: if_splits)
    qed
    then show ?thesis by (simp add: covered_def)
  qed
qed

section \<open>A pod is high for a reason\<close>

text \<open>
  The history shows, for each pod marked high, a request with the high runtime of its McKube that a
  daemon accepted, and the status update that followed.
\<close>

definition accepted_hi :: "env \<Rightarrow> string \<Rightarrow> call list \<Rightarrow> bool" where
  "accepted_hi E n h \<longleftrightarrow> (\<exists>h0 ip cid mk rts t. daemon_accepts E h0 ip (hi_request cid rts) \<and>
     PodName (Spec mk) = n \<and> RTSettings (Spec mk) = Some rts \<and>
     prefix (h0 @ [Post (daemon_url ip) (cgroup_json (hi_request cid rts)), StatusUpdate (hi_status t mk)]) h)"

definition justified :: "env \<Rightarrow> sys \<Rightarrow> bool" where
  "justified E s \<longleftrightarrow> (\<forall>n. map_of (podRuntimeState s) n = Some ''hi'' \<longrightarrow> accepted_hi E n (calls s))"

lemma accepted_hi_mono: "accepted_hi E n h \<Longrightarrow> prefix h h' \<Longrightarrow> accepted_hi E n h'"
  unfolding accepted_hi_def using prefix_order.trans by blast

text \<open>A handler that only lowers keeps the justification: the history only grows.\<close>

definition fewer_hi :: "sys \<Rightarrow> sys \<Rightarrow> bool" where
  "fewer_hi s t \<longleftrightarrow> grows s t \<and>
     (\<forall>n. map_of (podRuntimeState t) n = Some ''hi'' \<longrightarrow> map_of (podRuntimeState s) n = Some ''hi'')"

interpretation fewer_hi: call_frame fewer_hi
  by unfold_locales (auto simp: fewer_hi_def grows_def)

lemma fewer_hi_justified: "fewer_hi s t \<Longrightarrow> justified E s \<Longrightarrow> justified E t"
  unfolding fewer_hi_def justified_def grows_def using accepted_hi_mono by blast

lemma lowers_fewer_hi:
  assumes "lowers s t" and "map_of (podRuntimeState t) m = Some ''hi''"
  shows "map_of (podRuntimeState s) m = Some ''hi''"
proof -
  have "map_of (podRuntimeState t) m = map_of (podRuntimeState s) m \<or> map_of (podRuntimeState t) m = Some ''low''"
    using assms(1) by (auto simp: lowers_def)
  then show ?thesis using assms(2) by auto
qed

lemma fewer_hi_recovery: "fewer_hi.keeps (handleCPURecovery E n)"
proof (rule fewer_hi.keepsI)
  fix s
  have "grows.keeps (handleCPURecovery E n)"
    by (rule grows.keeps_recovery) (simp_all add: grows_def)
  then have "grows s (snd (run_state (handleCPURecovery E n) s))" by (rule grows.keepsD)
  then show "fewer_hi s (snd (run_state (handleCPURecovery E n) s))"
    using lowers_fewer_hi [OF recovery_lowers] by (simp add: fewer_hi_def)
qed

lemma fewer_hi_cleanup: "fewer_hi.keeps (cleanupPodState n)"
  by (rule fewer_hi.keepsI) (simp add: cleanupPodState_def fewer_hi_def grows_def)

lemma fewer_hi_handlers:
  "fewer_hi.keeps (Reconcile E ns n)" "fewer_hi.keeps (findObjectsForPod E pod)"
  "fewer_hi.keeps (taint_round E)" "fewer_hi.keeps (node_goroutine E g)" "fewer_hi.keeps (FindObjectsForNode node)"
proof -
  have press: "fewer_hi.keeps (HandleNodeCPUPressure E n)" for n
    by (rule fewer_hi.keeps_handle) (simp add: fewer_hi_def grows_def)
  have "fewer_hi.keeps (ensurePodRuntimeStateInitialized n)" for n
    by (rule fewer_hi.keepsI) (auto simp: ensurePodRuntimeStateInitialized_def fewer_hi_def grows_def)
  moreover have "fewer_hi s (s\<lparr>cpuPools := p\<rparr>)" "fewer_hi s (s\<lparr>lastCpuBusyState := b\<rparr>)" for s p b
    by (simp_all add: fewer_hi_def grows_def)
  ultimately show "fewer_hi.keeps (Reconcile E ns n)"
    by (intro fewer_hi.keeps_Reconcile fewer_hi_cleanup fewer_hi_recovery fewer_hi.keeps_pool_writers press)
  show "fewer_hi.keeps (findObjectsForPod E pod)"
    by (rule fewer_hi.keeps_find_objects) (rule fewer_hi_cleanup)
  show "fewer_hi.keeps (taint_round E)"
    by (rule fewer_hi.keeps_taint) (simp add: fewer_hi_def grows_def)
  show "fewer_hi.keeps (node_goroutine E g)"
    unfolding node_goroutine_def
    by (auto simp: fewer_hi_def grows_def split: prod.split
        intro!: fewer_hi.keeps_bind fewer_hi.keeps_return press fewer_hi.keeps_update)
  show "fewer_hi.keeps (FindObjectsForNode node)"
    by (rule fewer_hi.keepsI) (simp add: run_FindObjectsForNode fewer_hi_def grows_def)
qed

lemma justified_overrun: "justified E s \<Longrightarrow> justified E (snd (run_state (handleOverrunEvent E data) s))"
proof -
  assume s: "justified E s"
  obtain reads where r: "let s1 = s\<lparr>calls := calls s @ reads\<rparr>; s' = snd (run_state (handleOverrunEvent E data) s) in
     s' = s1 \<or> (\<exists>pod mk rts. PodName (Spec mk) = pod_Name pod \<and> RTSettings (Spec mk) = Some rts \<and>
       escalation E (od_ContainerID data) pod mk rts s1 s')"
    using overrun_cases [of s E data] by blast
  let ?s1 = "s\<lparr>calls := calls s @ reads\<rparr>" and ?s' = "snd (run_state (handleOverrunEvent E data) s)"
  have "fewer_hi s ?s1" by (rule fewer_hi.R_many)
  then have s1: "justified E ?s1" by (rule fewer_hi_justified [OF _ s])
  from r consider "?s' = ?s1" | pod mk rts where "PodName (Spec mk) = pod_Name pod" "RTSettings (Spec mk) = Some rts"
      "escalation E (od_ContainerID data) pod mk rts ?s1 ?s'"
    unfolding Let_def by blast
  then show ?thesis
  proof cases
    case 1
    then show ?thesis using s1 by simp
  next
    case 2
    let ?post = "Post (daemon_url (HostIP pod)) (cgroup_json (hi_request (od_ContainerID data) rts))"
    show ?thesis
    proof (cases "daemon_accepts E (calls ?s1) (HostIP pod) (hi_request (od_ContainerID data) rts)")
      case True
      then obtain u where u: "?s' = ?s1\<lparr>calls := calls ?s1 @ [?post, StatusUpdate (hi_status u mk)],
          podRuntimeState := gm_put (pod_Name pod) ''hi'' (podRuntimeState ?s1)\<rparr>"
        using 2(3) by (auto simp: escalation_def Let_def)
      have "prefix (calls ?s1 @ [?post, StatusUpdate (hi_status u mk)]) (calls ?s')" by (simp add: u)
      then have pod: "accepted_hi E (pod_Name pod) (calls ?s')"
        using True 2(1,2) unfolding accepted_hi_def by blast
      have "prefix (calls ?s1) (calls ?s')" by (simp add: u)
      then have "accepted_hi E n (calls ?s')" if "map_of (podRuntimeState ?s1) n = Some ''hi''" for n
        using s1 that accepted_hi_mono unfolding justified_def by blast
      then show ?thesis using pod unfolding justified_def by (simp add: u)
    next
      case False
      then have "?s' = ?s1\<lparr>calls := calls ?s1 @ [?post]\<rparr>" using 2(3) by (simp add: escalation_def Let_def)
      then show ?thesis using fewer_hi_justified [OF fewer_hi.R_many s1] by simp
    qed
  qed
qed

lemma justified_endpoint: "justified E s \<Longrightarrow> justified E (snd (run_state (overrun_endpoint E verb decoded) s))"
  using justified_overrun by (auto simp: overrun_endpoint_def case_prod_beta' split: sum.split)

interpretation justification: invariant_of started_up "ctl_step E" "\<lambda>c. justified E (vars c)" for E
proof (rule vars_invariant)
  show "justified E demo_sys" by (simp add: justified_def demo_sys_def)
qed (rule fewer_hi_justified [OF fewer_hi.keepsD] fewer_hi_handlers justified_endpoint | assumption)+

section \<open>No timer is ever set\<close>

text \<open>The only writes to \<open>Timers\<close> are those of the taint thread, which are for the entries it finds there.\<close>

definition no_timers :: "sys \<Rightarrow> bool" where
  "no_timers s \<longleftrightarrow> Timers s = []"

lemma no_timers_simps [simp]:
  "no_timers (s\<lparr>calls := c\<rparr>) = no_timers s" "no_timers (s\<lparr>cpuPools := p\<rparr>) = no_timers s"
  "no_timers (s\<lparr>lastCpuBusyState := l\<rparr>) = no_timers s" "no_timers (s\<lparr>podRuntimeState := r\<rparr>) = no_timers s"
  "no_timers (s\<lparr>PressureState := ps\<rparr>) = no_timers s" "no_timers (s\<lparr>ProcessingNodes := f\<rparr>) = no_timers s"
  by (simp_all add: no_timers_def)

interpretation idle: call_frame "inv_rel no_timers"
  by (rule call_frame_inv) simp

lemma idle_taint:
  assumes "env_orders E" and "no_timers s"
  shows "run_state (taint_round E) s = ((), s\<lparr>calls := calls s @ [RangeMap]\<rparr>)"
proof -
  have "mset (on_range_timers E (calls s) []) = {#}" using assms(1) by (simp add: env_orders_def is_order_def)
  then show ?thesis using assms(2) by (simp add: taint_round_def range_over_def no_timers_def)
qed

lemma idle_handlers:
  "idle.keeps (Reconcile E ns n)" "idle.keeps (findObjectsForPod E pod)"
  "idle.keeps (overrun_endpoint E verb decoded)" "idle.keeps (FindObjectsForNode node)"
  "idle.keeps (node_goroutine E g)"
proof -
  have set_flag: "inv_rel no_timers s (s\<lparr>cpuPools := p\<rparr>)" "inv_rel no_timers s (s\<lparr>lastCpuBusyState := l\<rparr>)"
    "inv_rel no_timers s (s\<lparr>podRuntimeState := r\<rparr>)" "inv_rel no_timers s (s\<lparr>PressureState := ps\<rparr>)"
    "inv_rel no_timers s (s\<lparr>ProcessingNodes := f\<rparr>)"
    "inv_rel no_timers s (s\<lparr>PressureState := ps, ProcessingNodes := f\<rparr>)" for s p l r ps f
    by (simp_all add: inv_rel_def)
  have press: "idle.keeps (HandleNodeCPUPressure E n)" for n
    by (rule idle.keeps_handle) (rule set_flag)
  have recovery: "idle.keeps (handleCPURecovery E n)" for n
    by (rule idle.keeps_recovery) (rule set_flag)+
  have cleanup: "idle.keeps (cleanupPodState n)" for n
    by (rule idle.keepsI) (simp add: cleanupPodState_def inv_rel_def)
  have "idle.keeps (ensurePodRuntimeStateInitialized n)" for n
    by (rule idle.keepsI) (simp add: ensurePodRuntimeStateInitialized_def inv_rel_def)
  then show "idle.keeps (Reconcile E ns n)"
    by (intro idle.keeps_Reconcile cleanup recovery press idle.keeps_pool_writers set_flag)
  show "idle.keeps (findObjectsForPod E pod)"
    by (rule idle.keeps_find_objects) (rule cleanup)
  have "idle.keeps (handleOverrunEvent E data)" for data
    by (rule idle.keeps_overrun) (rule set_flag)+
  then show "idle.keeps (overrun_endpoint E verb decoded)"
    unfolding overrun_endpoint_def by (auto split: sum.split intro!: idle.keeps_bind idle.keeps_return)
  show "idle.keeps (FindObjectsForNode node)"
    by (rule idle.keepsI) (simp add: run_FindObjectsForNode inv_rel_def)
  show "idle.keeps (node_goroutine E g)"
    unfolding node_goroutine_def
    by (auto split: prod.split intro!: idle.keeps_bind idle.keeps_return press idle.keeps_update set_flag)
qed

interpretation timers: invariant_of started_up "ctl_step E" "\<lambda>c. env_orders E \<longrightarrow> no_timers (vars c)" for E
proof (rule vars_invariant)
  show "env_orders E \<longrightarrow> no_timers demo_sys" by (simp add: no_timers_def demo_sys_def)
  show "env_orders E \<longrightarrow> no_timers (snd (run_state (taint_round E) s))"
    if "env_orders E \<longrightarrow> no_timers s" for s
    using that by (simp add: idle_taint)
qed (use idle.keepsD [OF idle_handlers(1)] idle.keepsD [OF idle_handlers(2)] idle.keepsD [OF idle_handlers(3)]
    idle.keepsD [OF idle_handlers(4)] idle.keepsD [OF idle_handlers(5)] in \<open>simp add: inv_rel_def\<close>)+

section \<open>Concrete runs\<close>

definition at_start :: controller where
  "at_start = \<lparr>vars = demo_sys, in_flight = [], cleared = (\<lambda>_. 0)\<rparr>"

lemma reach_start: "reach started_up (ctl_step E) at_start"
  by (rule reach.start) (simp add: started_up_def at_start_def)

definition loaded_node :: KNode where
  "loaded_node = \<lparr>node_Name = ''worker'', node_Annotations = [(AnnUsageKey, ''95'')], node_Taints = [], node_Addresses = []\<rparr>"

lemma loaded_event: "cpu_event (node_Annotations loaded_node) = Some True"
proof -
  have "trim_space ''95'' = ''95''" by code_simp
  moreover have "trim_space '''' = ''''" by code_simp
  moreover have "parse_float_ok ''95''"
    by (simp add: parse_float_ok_def is_special_float_def drop_sign_def is_sign_def scan_exponent_def
        is_digit_def f64_overflows_def digit_val_def lower_def)
  ultimately show ?thesis
    by (simp add: cpu_event_def loaded_node_def gm_str_def AnnUsageKey_def AnnCpuBusyKey_def)
qed

definition loaded :: "controller \<Rightarrow> controller" where
  "loaded c = spawn (Some (''worker'', True)) (c\<lparr>vars := (vars c)\<lparr>ProcessingNodes := gm_put ''worker'' True (ProcessingNodes (vars c))\<rparr>\<rparr>)"

lemma step_loaded:
  assumes "\<not> flagged (vars c) ''worker''"
  shows "ctl_step E c (loaded c)"
  unfolding loaded_def
  by (rule ctl_step.node_event [of loaded_node])
    (use assms in \<open>simp add: run_FindObjectsForNode loaded_event, simp add: loaded_node_def\<close>)

text \<open>A reconcile of a McKube without RT settings, on a node whose annotation says it is not busy.\<close>

definition idle_node :: KNode where
  "idle_node = \<lparr>node_Name = ''worker'', node_Annotations = [(AnnCpuBusyKey, ''false'')], node_Taints = [], node_Addresses = []\<rparr>"

definition plain_mckube :: McKube where
  "plain_mckube = (demo_mckube None)\<lparr>mk_Finalizers := [mckubeFinalizer],
     Spec := (Spec (demo_mckube None))\<lparr>RTSettings := None\<rparr>\<rparr>"

definition idle_env :: env where
  "idle_env = demo_env\<lparr>on_get_mckube := \<lambda>_ _ _. Inr plain_mckube, on_get_node := \<lambda>_ _. Inr idle_node,
     on_list_pods := \<lambda>_ _. Inr [demo_rt_pod]\<rparr>"

lemma idle_reconcile:
  assumes "map_of (lastCpuBusyState s) ''worker'' = None"
  shows "ProcessingNodes (snd (run_state (Reconcile idle_env ''default'' ''m'') s)) = gm_del ''worker'' (ProcessingNodes s)"
proof -
  let ?s1 = "s\<lparr>calls := calls s @ [GetMcKube ''default'' ''m'']\<rparr>"
  have trim: "trim_space ''false'' = ''false''" by code_simp
  have busy: "node_busy idle_env h ''worker'' = Some False" for h
    by (simp add: node_busy_def idle_env_def idle_node_def trim)
  have mk: "run_state (Reconcile idle_env ''default'' ''m'') s =
      (let r = run_state (reconcile_pressure idle_env ''worker'') ?s1 in (Returned (NoRequeue, None), snd r))"
    by (simp add: Reconcile_def get_mckube_def idle_env_def plain_mckube_def demo_mckube_def reconcile_rt_def
        containsString_iff case_prod_beta' Let_def)
  have pods: "recovery_pods idle_env t ''worker'' \<noteq> []" for t
    by (simp add: recovery_pods_def idle_env_def demo_rt_pod_def gm_str_def rt_label_def)
  have "ProcessingNodes (after_reverts idle_env n t) = ProcessingNodes t" for n t
  proof -
    let ?t1 = "t\<lparr>calls := calls t @ [ListPods (Some targetNamespace)]\<rparr>"
    have "same_pressure ?t1 (after_reverts idle_env n t)"
      unfolding after_reverts_def
      by (rule same_pressure.keepsD) (intro same_pressure.keeps_for_each keeps_pressure_revert_pod)
    then show ?thesis by (simp add: same_pressure_def)
  qed
  then show ?thesis
    using assms by (simp add: mk run_reconcile_pressure busy Let_def run_handleCPURecovery pods)
qed

section \<open>Properties\<close>

text \<open>
  C1: in every state the controller can reach from its start by reconciles, pod and node events,
  overruns, taint rounds and goroutines, in any order, whatever the API server and the daemons answer
  and in whatever order a range visits a map, provided it visits every entry once, the pools have distinct cores with the pods filed under their names, every runtime state is
  low or high, and every node's tiers are in rank order with the index in step.
\<close>

theorem reachable_tables:
  assumes "env_orders E" and "reach started_up (ctl_step E) c"
  shows "pools_ok (vars c) \<and> runtime_ok (vars c) \<and> pressures_ok (vars c)"
  using tables.holds [OF assms(2)] assms(1) by (simp add: sys_ok_def)

theorem reachable_tables_witness:
  "let c = loaded at_start in pools_ok (vars c) \<and> runtime_ok (vars c) \<and> pressures_ok (vars c)"
proof -
  have "reach started_up (ctl_step demo_env) (loaded at_start)"
    by (rule reach.follow [OF reach_start step_loaded]) (simp add: at_start_def flagged_def demo_sys_def)
  then show ?thesis unfolding Let_def by (rule reachable_tables [OF env_orders_demo])
qed

text \<open>
  C9: a pod that the controller holds for high got there through a daemon: in every reachable state,
  the history has, for each pod marked high, a request with the high runtime of a McKube of that pod
  which a daemon answered with 200, directly followed by the update of that McKube's status.
\<close>

theorem reachable_hi_accepted:
  assumes "reach started_up (ctl_step E) c" and "map_of (podRuntimeState (vars c)) n = Some ''hi''"
  shows "\<exists>h ip cid mk rts t. daemon_accepts E h ip (hi_request cid rts) \<and>
    PodName (Spec mk) = n \<and> RTSettings (Spec mk) = Some rts \<and>
    prefix (h @ [Post (daemon_url ip) (cgroup_json (hi_request cid rts)), StatusUpdate (hi_status t mk)])
      (calls (vars c))"
  using justification.holds [OF assms(1)] assms(2) unfolding justified_def accepted_hi_def by blast

lemma overrun_run:
  "map_of (podRuntimeState (snd (run_state (overrun_endpoint overrun_env ''POST'' (Inr overrun_data)) demo_sys))) ''p'' =
    Some ''hi''"
proof -
  have name: "pod_Name plain_pod = ''p''" by (simp add: plain_pod_def demo_rt_pod_def)
  obtain reads where "\<forall>pod mk rts. overrun_target overrun_env demo_sys overrun_data pod mk rts \<longrightarrow>
      escalation overrun_env (od_ContainerID overrun_data) pod mk rts (demo_sys\<lparr>calls := calls demo_sys @ reads\<rparr>)
        (snd (run_state (handleOverrunEvent overrun_env overrun_data) demo_sys))"
    using run_handleOverrunEvent [of demo_sys overrun_env overrun_data] unfolding Let_def by blast
  from this [rule_format, OF demo_overrun(1)]
  have "map_of (podRuntimeState (snd (run_state (handleOverrunEvent overrun_env overrun_data) demo_sys))) ''p'' = Some ''hi''"
    using demo_overrun(2) by (auto simp: escalation_def Let_def name)
  then show ?thesis by (simp add: overrun_endpoint_def case_prod_beta')
qed

theorem reachable_hi_accepted_witness:
  "\<exists>c :: controller. map_of (podRuntimeState (vars c)) ''p'' = Some ''hi'' \<and>
    (\<exists>h ip cid mk rts t. daemon_accepts overrun_env h ip (hi_request cid rts) \<and>
      PodName (Spec mk) = ''p'' \<and> RTSettings (Spec mk) = Some rts \<and>
      prefix (h @ [Post (daemon_url ip) (cgroup_json (hi_request cid rts)), StatusUpdate (hi_status t mk)])
        (calls (vars c)))"
proof -
  let ?c = "handled at_start (snd (run_state (overrun_endpoint overrun_env ''POST'' (Inr overrun_data)) (vars at_start)))"
  have reach: "reach started_up (ctl_step overrun_env) ?c"
    by (rule reach.follow [OF reach_start ctl_step.overrun])
  have hi: "map_of (podRuntimeState (vars ?c)) ''p'' = Some ''hi''"
    using overrun_run by (simp add: handled_def at_start_def)
  show ?thesis by (rule exI [of _ ?c], rule conjI, rule hi, rule reachable_hi_accepted [OF reach hi])
qed

text \<open>
  C10: the goroutines of one node exclude each other as far as its flag is left alone. In every
  reachable state the goroutines of a node in flight are at most one more than the times a handler
  cleared the node's processing flag, and at most that many while the flag is clear.
\<close>

theorem node_goroutines_bounded:
  assumes "reach started_up (ctl_step E) c"
  shows "length [g \<leftarrow> in_flight c. fst g = n] \<le> cleared c n + (if flagged (vars c) n then 1 else 0)"
  using exclusion.holds [OF assms] unfolding covered_def on_node_def by blast

theorem node_goroutines_bounded_witness:
  "length [g \<leftarrow> in_flight (loaded at_start). fst g = ''worker''] = 1 \<and>
   length [g \<leftarrow> in_flight (loaded at_start). fst g = ''worker''] \<le>
     cleared (loaded at_start) ''worker'' + (if flagged (vars (loaded at_start)) ''worker'' then 1 else 0)"
proof -
  have "reach started_up (ctl_step demo_env) (loaded at_start)"
    by (rule reach.follow [OF reach_start step_loaded]) (simp add: at_start_def flagged_def demo_sys_def)
  from node_goroutines_bounded [OF this, of "''worker''"] show ?thesis
    by (intro conjI) (simp_all add: loaded_def spawn_def at_start_def)
qed

text \<open>
  C11: recovery breaks that exclusion. Clearing the flag while a goroutine of the node is still in
  flight lets the next event of the node start a second one: a state with two goroutines of one node in
  flight is reachable after the flag was cleared once, with an API server whose answers to writes keep
  the name and namespace of what is written.
\<close>

theorem two_goroutines_reachable:
  "\<exists>E c. writes_keep_identity E \<and> env_orders E \<and> reach started_up (ctl_step E) c \<and>
     length [g \<leftarrow> in_flight c. fst g = ''worker''] = 2 \<and> cleared c ''worker'' = 1"
proof -
  let ?c1 = "loaded at_start"
  let ?s = "snd (run_state (Reconcile idle_env ''default'' ''m'') (vars ?c1))"
  let ?c2 = "handled ?c1 ?s"
  have c1: "reach started_up (ctl_step idle_env) ?c1"
    by (rule reach.follow [OF reach_start step_loaded]) (simp add: at_start_def flagged_def demo_sys_def)
  have c2: "reach started_up (ctl_step idle_env) ?c2"
    by (rule reach.follow [OF c1 ctl_step.reconcile])
  have flag: "flagged (vars ?c1) ''worker''" by (simp add: loaded_def flagged_def)
  have "ProcessingNodes ?s = gm_del ''worker'' (ProcessingNodes (vars ?c1))"
    by (rule idle_reconcile) (simp add: loaded_def at_start_def demo_sys_def)
  then have noflag: "\<not> flagged ?s ''worker''" by (simp add: flagged_def)
  have "reach started_up (ctl_step idle_env) (loaded ?c2)"
    by (rule reach.follow [OF c2 step_loaded]) (use noflag in \<open>simp add: handled_def\<close>)
  moreover have "in_flight (loaded ?c2) = [(''worker'', True), (''worker'', True)]"
    by (simp add: loaded_def spawn_def handled_def at_start_def)
  moreover have "cleared (loaded ?c2) ''worker'' = 1"
  proof -
    have "cleared ?c1 ''worker'' = 0" by (simp add: loaded_def at_start_def)
    then show ?thesis unfolding loaded_def [of ?c2] using flag noflag by (simp add: handled_def)
  qed
  moreover have "writes_keep_identity idle_env" "env_orders idle_env"
    using demo_identity env_orders_demo
    by (simp_all add: idle_env_def writes_keep_identity_def env_orders_def)
  ultimately show ?thesis by (intro exI [of _ idle_env] exI [of _ "loaded ?c2"]) simp
qed

text \<open>
  C12: the taint thread never does anything. No handler ever sets a timer, so in every reachable
  state there is none, and a round of the thread makes no request and changes no variable: a taint
  of the controller's key is never taken off by it.
\<close>

theorem taint_thread_idle:
  assumes "env_orders E" and "reach started_up (ctl_step E) c"
  shows "Timers (vars c) = [] \<and>
    run_state (taint_round E) (vars c) = ((), (vars c)\<lparr>calls := calls (vars c) @ [RangeMap]\<rparr>)"
  using timers.holds [OF assms(2)] assms(1) idle_taint [OF assms(1)] by (simp add: no_timers_def)

theorem taint_thread_idle_witness:
  "Timers (vars (loaded at_start)) = [] \<and>
    run_state (taint_round demo_env) (vars (loaded at_start)) =
      ((), (vars (loaded at_start))\<lparr>calls := calls (vars (loaded at_start)) @ [RangeMap]\<rparr>)"
  by (rule taint_thread_idle [OF env_orders_demo reach.follow [OF reach_start step_loaded]])
    (simp add: at_start_def flagged_def demo_sys_def)

end
