(* ===== verification/Runtime_Machine.thy ===== *)
theory Runtime_Machine
  imports Controller
begin

text \<open>
  An abstract specification of the runtime states of pods, and the proof that the controller of
  \<open>internal/controller/mckube_controller.go\<close> implements it. The specification is a machine over the
  modes of pods: one pod at a time is escalated or forgotten, and pods settle at the low runtime, from
  no state or from high. Every step of the controller is a step of the machine.
\<close>

section \<open>Simulation\<close>

text \<open>Every step of the concrete system is matched by one step of the abstract system.\<close>

locale simulation =
  fixes init :: "'s \<Rightarrow> bool" and step :: "'s \<Rightarrow> 's \<Rightarrow> bool"
    and ainit :: "'a \<Rightarrow> bool" and astep :: "'a \<Rightarrow> 'a \<Rightarrow> bool" and abs :: "'s \<Rightarrow> 'a"
  assumes abs_init: "init s \<Longrightarrow> ainit (abs s)"
    and abs_step: "step s t \<Longrightarrow> astep (abs s) (abs t)"
begin

lemma abs_reach: "reach init step s \<Longrightarrow> reach ainit astep (abs s)"
  by (induction rule: reach.induct) (auto intro: reach.intros abs_init abs_step)

text \<open>An invariant of the specification is one of the implementation.\<close>

lemma abs_invariant:
  assumes "invariant_of ainit astep I" and "reach init step s"
  shows "I (abs s)"
  using invariant_of.holds [OF assms(1) abs_reach [OF assms(2)]] .

end

section \<open>The specification\<close>

datatype mode = Untracked | LowRuntime | HighRuntime

definition all_untracked :: "(string \<Rightarrow> mode) \<Rightarrow> bool" where
  "all_untracked m \<longleftrightarrow> m = (\<lambda>_. Untracked)"

definition settles_to :: "mode \<Rightarrow> mode \<Rightarrow> bool" where
  "settles_to a b \<longleftrightarrow> b = a \<or> b = LowRuntime"

inductive mode_step :: "(string \<Rightarrow> mode) \<Rightarrow> (string \<Rightarrow> mode) \<Rightarrow> bool" where
  escalated: "m p \<noteq> HighRuntime \<Longrightarrow> mode_step m (m(p := HighRuntime))"
| forgotten: "mode_step m (m(p := Untracked))"
| settled: "(\<And>p. settles_to (m p) (m' p)) \<Longrightarrow> mode_step m m'"

inductive_cases mode_stepE: "mode_step m m'"

lemma mode_step_refl [simp]: "mode_step m m"
  by (rule mode_step.settled) (simp add: settles_to_def)

section \<open>The implementation\<close>

definition mode_of :: "sys \<Rightarrow> string \<Rightarrow> mode" where
  "mode_of s p = (case map_of (podRuntimeState s) p of
     None \<Rightarrow> Untracked
   | Some v \<Rightarrow> if v = ''hi'' then HighRuntime else LowRuntime)"

lemma mode_of_simps [simp]:
  "mode_of (s\<lparr>calls := c\<rparr>) = mode_of s" "mode_of (s\<lparr>cpuPools := cp\<rparr>) = mode_of s"
  "mode_of (s\<lparr>lastCpuBusyState := l\<rparr>) = mode_of s" "mode_of (s\<lparr>Timers := ts\<rparr>) = mode_of s"
  "mode_of (s\<lparr>PressureState := ps\<rparr>) = mode_of s" "mode_of (s\<lparr>ProcessingNodes := f\<rparr>) = mode_of s"
  by (simp_all add: mode_of_def fun_eq_iff)

lemma mode_of_put [simp]:
  "mode_of (s\<lparr>podRuntimeState := gm_put p v (podRuntimeState s)\<rparr>) =
    (mode_of s)(p := if v = ''hi'' then HighRuntime else LowRuntime)"
  by (auto simp: mode_of_def fun_eq_iff)

lemma mode_of_escalated [simp]:
  "mode_of (s\<lparr>calls := c, podRuntimeState := gm_put p ''hi'' (podRuntimeState s)\<rparr>) = (mode_of s)(p := HighRuntime)"
  by (auto simp: mode_of_def fun_eq_iff)

lemma mode_of_high: "mode_of s p = HighRuntime \<longleftrightarrow> map_of (podRuntimeState s) p = Some ''hi''"
  by (simp add: mode_of_def split: option.split)

text \<open>The frame of all handlers but the cleanup and the overrun: pods settle.\<close>

definition settles :: "sys \<Rightarrow> sys \<Rightarrow> bool" where
  "settles s t \<longleftrightarrow> (\<forall>p. settles_to (mode_of s p) (mode_of t p))"

lemma settles_to_trans: "settles_to a b \<Longrightarrow> settles_to b c \<Longrightarrow> settles_to a c"
  by (auto simp: settles_to_def)

interpretation settles: call_frame settles
proof unfold_locales
  fix s t u
  assume "settles s t" and "settles t u"
  then show "settles s u" unfolding settles_def using settles_to_trans by metis
qed (simp_all add: settles_def settles_to_def)

lemma settles_free [simp]:
  "settles s (s\<lparr>cpuPools := cp\<rparr>)" "settles s (s\<lparr>lastCpuBusyState := l\<rparr>)" "settles s (s\<lparr>Timers := ts\<rparr>)"
  "settles s (s\<lparr>PressureState := ps\<rparr>)" "settles s (s\<lparr>ProcessingNodes := f\<rparr>)"
  by (simp_all add: settles_def settles_to_def)

lemma settles_ensure: "settles.keeps (ensurePodRuntimeStateInitialized n)"
  by (rule settles.keepsI)
    (auto simp: ensurePodRuntimeStateInitialized_def settles_def settles_to_def mode_of_def)

lemma lowers_settles: "lowers s t \<Longrightarrow> settles s t"
  unfolding settles_def
proof
  fix p
  assume "lowers s t"
  then have "map_of (podRuntimeState t) p = map_of (podRuntimeState s) p \<or>
      map_of (podRuntimeState t) p = Some ''low''"
    by (auto simp: lowers_def)
  then show "settles_to (mode_of s p) (mode_of t p)"
    by (auto simp: settles_to_def mode_of_def)
qed

lemma settles_recovery: "settles.keeps (handleCPURecovery E n)"
  by (rule settles.keepsI) (rule lowers_settles [OF recovery_lowers])

lemma settles_pressure: "settles.keeps (HandleNodeCPUPressure E n)"
  by (rule settles.keeps_handle) simp

lemma settles_live:
  assumes "\<And>rt. on_get_mckube E (calls s) ns n = Inr rt \<Longrightarrow> mk_DeletionTimestamp rt = None"
  shows "settles s (snd (run_state (Reconcile E ns n) s))"
  by (rule settles.live_Reconcile)
    (use assms in \<open>auto intro!: settles_ensure settles.keeps_pool_writers settles_pressure settles_recovery\<close>)

lemma mode_cleanup: "mode_of (snd (run_state (cleanupPodState p) s)) = (mode_of s)(p := Untracked)"
  by (auto simp: cleanupPodState_def mode_of_def fun_eq_iff)

lemma mode_Reconcile: "mode_step (mode_of s) (mode_of (snd (run_state (Reconcile E ns n) s)))"
proof (cases "\<exists>rt. on_get_mckube E (calls s) ns n = Inr rt \<and> mk_DeletionTimestamp rt \<noteq> None")
  case True
  then obtain rt where rt: "on_get_mckube E (calls s) ns n = Inr rt" "mk_DeletionTimestamp rt \<noteq> None" by blast
  let ?s1 = "s\<lparr>calls := calls s @ [GetMcKube ns n]\<rparr>"
  have "snd (run_state (Reconcile E ns n) s) = snd (run_state (reconcile_deleted E rt) ?s1)"
    using rt by (simp add: Reconcile_def get_mckube_def case_prod_beta')
  moreover have "mode_of (snd (run_state (reconcile_deleted E rt) t)) = mode_of t \<or>
      (\<exists>p. mode_of (snd (run_state (reconcile_deleted E rt) t)) = (mode_of t)(p := Untracked))" for t
    by (auto simp: reconcile_deleted_def update_mckube_def mode_cleanup case_prod_beta')
  ultimately show ?thesis using mode_step.forgotten by (metis mode_of_simps(1) mode_step_refl)
next
  case False
  then have "settles s (snd (run_state (Reconcile E ns n) s))"
    by (intro settles_live) blast
  then show ?thesis by (intro mode_step.settled) (simp add: settles_def)
qed

lemma mode_pod_event: "mode_step (mode_of s) (mode_of (snd (run_state (findObjectsForPod E pod) s)))"
  by (auto simp: findObjectsForPod_def list_mckubes_def mode_cleanup case_prod_beta'
      intro: mode_step.forgotten)

lemma mode_overrun: "mode_step (mode_of s) (mode_of (snd (run_state (overrun_endpoint E verb decoded) s)))"
proof -
  have "mode_step (mode_of s) (mode_of (snd (run_state (handleOverrunEvent E data) s)))" for data
  proof -
    obtain reads where "let s1 = s\<lparr>calls := calls s @ reads\<rparr>; s' = snd (run_state (handleOverrunEvent E data) s) in
       s' = s1 \<or> (\<exists>pod mk rts. PodName (Spec mk) = pod_Name pod \<and> RTSettings (Spec mk) = Some rts \<and>
         escalation E (od_ContainerID data) pod mk rts s1 s')"
      using overrun_cases [of s E data] by blast
    then show ?thesis
      by (auto simp: Let_def escalation_def runtime_state_hi mode_of_high split: if_splits
          intro!: mode_step.escalated)
  qed
  then show ?thesis
    by (auto simp: overrun_endpoint_def case_prod_beta' split: sum.split)
qed

interpretation modes: simulation started_up "ctl_step E" all_untracked mode_step "\<lambda>c. mode_of (vars c)" for E
proof unfold_locales
  fix c assume "started_up c"
  then show "all_untracked (mode_of (vars c))"
    by (simp add: started_up_def all_untracked_def mode_of_def demo_sys_def fun_eq_iff)
next
  fix c d assume "ctl_step E c d"
  then show "mode_step (mode_of (vars c)) (mode_of (vars d))"
  proof cases
    case (reconcile ns n)
    then show ?thesis by (simp add: handled_def mode_Reconcile)
  next
    case (pod_event pod)
    then show ?thesis by (simp add: handled_def mode_pod_event)
  next
    case (overrun verb decoded)
    then show ?thesis by (simp add: handled_def mode_overrun)
  next
    case taint
    have "settles.keeps (taint_round E)" by (rule settles.keeps_taint) simp
    then have "settles (vars c) (vars d)" using settles.keepsD taint by (simp add: handled_def)
    then show ?thesis by (intro mode_step.settled) (simp add: settles_def)
  next
    case (node_event node reqs g s)
    then show ?thesis by (auto simp: run_FindObjectsForNode split: if_splits)
  next
    case (finish before g after)
    have "settles.keeps (node_goroutine E g)"
      unfolding node_goroutine_def
      by (auto split: prod.split intro!: settles.keeps_bind settles.keeps_return settles_pressure settles.keeps_update)
    then have "settles (vars c) (vars d)" using settles.keepsD finish by simp
    then show ?thesis by (intro mode_step.settled) (simp add: settles_def)
  qed
qed

section \<open>The refinement\<close>

lemma escalation_alone:
  assumes "mode_step m m'" and "m p \<noteq> HighRuntime" and "m' p = HighRuntime" and "q \<noteq> p"
  shows "m' q = m q"
  using assms(1)
proof cases
  case (escalated r)
  then show ?thesis using assms(2-4) by (auto split: if_splits)
next
  case (forgotten r)
  then show ?thesis using assms(2,3) by (auto split: if_splits)
next
  case settled
  then show ?thesis using assms(2,3) by (auto simp: settles_to_def dest: spec [of _ p]) (metis mode.distinct(5))
qed

text \<open>
  C8: the controller implements the machine of runtime modes. From any reachable state, whatever it
  handles and whatever the API server and the daemons answer, its step is a step of the machine: it
  escalates one pod, or forgets one pod, or lets pods settle at the low runtime, and the machine can
  reach the modes it is in. In particular a step that raises a pod changes no other pod's mode.
\<close>

theorem runtime_modes_refine:
  assumes "reach started_up (ctl_step E) c" and "ctl_step E c d"
  shows "reach all_untracked mode_step (mode_of (vars c)) \<and>
    mode_step (mode_of (vars c)) (mode_of (vars d)) \<and>
    (\<forall>p q. mode_of (vars c) p \<noteq> HighRuntime \<and> mode_of (vars d) p = HighRuntime \<and> q \<noteq> p \<longrightarrow>
      mode_of (vars d) q = mode_of (vars c) q)"
  using modes.abs_reach [OF assms(1)] modes.abs_step [OF assms(2)]
    escalation_alone [OF modes.abs_step [OF assms(2)]] by blast

theorem runtime_modes_refine_witness:
  "\<exists>d. ctl_step overrun_env at_start d \<and> mode_of (vars d) ''p'' = HighRuntime \<and>
    mode_step (mode_of (vars at_start)) (mode_of (vars d))"
proof -
  let ?d = "handled at_start (snd (run_state (overrun_endpoint overrun_env ''POST'' (Inr overrun_data)) (vars at_start)))"
  have step: "ctl_step overrun_env at_start ?d" by (rule ctl_step.overrun)
  have "mode_of (vars ?d) ''p'' = HighRuntime"
    using overrun_run by (simp add: handled_def at_start_def mode_of_high)
  with step runtime_modes_refine [OF reach_start step] show ?thesis by blast
qed

end
