(* ===== verification/Housekeeping.thy ===== *)
theory Housekeeping
  imports Preemption
begin

text \<open>
  \<open>cleanupPodStateByMcKubeName\<close> of \<open>internal/controller/mckube_controller.go\<close>, which forgets every pod
  that no longer exists, and the timing statistics of \<open>track\<close> and \<open>duration\<close>.
\<close>

section \<open>Forgetting the pods that are gone\<close>

text \<open>The inner loop ranges over the map it deletes from: each entry is visited once.\<close>

definition sweep_entry :: "string list \<Rightarrow> CPUCoreInfo \<Rightarrow> string \<times> PodInfo \<Rightarrow> CPUCoreInfo" where
  "sweep_entry existingPods core entry = (case entry of (podName, podInfo) \<Rightarrow>
     if podName \<notin> set existingPods
     then core\<lparr>UsageMillis := UsageMillis core - CPUMillis podInfo, Pods := gm_del podName (Pods core)\<rparr>
     else core)"

definition sweep_core :: "string list \<Rightarrow> CPUCoreInfo \<Rightarrow> CPUCoreInfo" where
  "sweep_core existingPods core = foldl (sweep_entry existingPods) core (Pods core)"

definition sweep_pool :: "string list \<Rightarrow> CPUPool \<Rightarrow> CPUPool" where
  "sweep_pool existingPods p = p\<lparr>Cores := map (\<lambda>(i, core). (i, sweep_core existingPods core)) (Cores p)\<rparr>"

definition cleanupPodStateByMcKubeName :: "env \<Rightarrow> string \<Rightarrow> unit act" where
  "cleanupPodStateByMcKubeName E ns = do {
     l \<leftarrow> list_pods E (Some ns);
     case l of Inl e \<Rightarrow> State_Monad.return ()
     | Inr items \<Rightarrow>
         (let existingPods = map pod_Name [p \<leftarrow> items. gm_str (pod_Labels p) rt_label \<noteq> ''''] in
          State_Monad.update (\<lambda>s. s\<lparr>
            podRuntimeState := [(n, v) \<leftarrow> podRuntimeState s. n \<in> set existingPods],
            cpuPools := map (\<lambda>(n, p). (n, sweep_pool existingPods p)) (cpuPools s)\<rparr>))
   }"

text \<open>What is left of a core, and what it has given back.\<close>

lemma sweep_loop:
  assumes "gm_ok m" and "set es \<subseteq> set m" and "distinct (map fst es)" and "Pods core = m"
    and "UsageMillis core = entries_total CPUMillis m + d"
  shows "let c = foldl (sweep_entry ex) core es in
    gm_ok (Pods c) \<and> UsageMillis c = entries_total CPUMillis (Pods c) + d \<and> CoreID c = CoreID core \<and>
    (\<forall>n. map_of (Pods c) n = (if n \<in> fst ` set es \<and> n \<notin> set ex then None else map_of m n))"
  using assms
proof (induction es arbitrary: core m)
  case Nil
  then show ?case by simp
next
  case (Cons e es)
  obtain n v where e: "e = (n, v)" by (cases e)
  have nv: "map_of m n = Some v" using Cons.prems(1,2) by (simp add: e)
  have out: "n \<notin> fst ` set es" "distinct (map fst es)" using Cons.prems(3) by (simp_all add: e)
  show ?case
  proof (cases "n \<in> set ex")
    case True
    then have "sweep_entry ex core e = core" by (simp add: sweep_entry_def e)
    then show ?thesis using Cons.IH [OF Cons.prems(1) _ out(2) Cons.prems(4,5)] Cons.prems(2) True
      by (auto simp: Let_def e)
  next
    case False
    let ?m = "gm_del n m"
    let ?core = "core\<lparr>UsageMillis := UsageMillis core - CPUMillis v, Pods := ?m\<rparr>"
    have step: "sweep_entry ex core e = ?core" using False Cons.prems(4) by (simp add: sweep_entry_def e)
    have "set es \<subseteq> set ?m"
    proof
      fix x assume x: "x \<in> set es"
      then have "fst x \<noteq> n" using out(1) by force
      moreover have "map_of m (fst x) = Some (snd x)" using x Cons.prems(1,2) by (cases x) auto
      ultimately have "map_of ?m (fst x) = Some (snd x)" by simp
      then show "x \<in> set ?m" by (metis map_of_SomeD prod.collapse)
    qed
    moreover have "gm_ok ?m" using Cons.prems(1) by simp
    moreover have "UsageMillis ?core = entries_total CPUMillis ?m + d"
      using Cons.prems(1,5) booked_del [OF Cons.prems(1), of n] nv by (simp add: cpu_of_def)
    moreover define c where "c = foldl (sweep_entry ex) ?core es"
    ultimately have c: "gm_ok (Pods c)" "UsageMillis c = entries_total CPUMillis (Pods c) + d" "CoreID c = CoreID core"
      "\<And>k. map_of (Pods c) k = (if k \<in> fst ` set es \<and> k \<notin> set ex then None else map_of ?m k)"
      using out(2) Cons.IH [of ?m ?core] by (simp_all add: Let_def)
    have "map_of (Pods c) k = (if k \<in> fst ` set (e # es) \<and> k \<notin> set ex then None else map_of m k)" for k
      using c(4) [of k] False out(1) by (simp add: e)
    moreover have "foldl (sweep_entry ex) core (e # es) = c" by (simp add: step c_def)
    ultimately show ?thesis using c(1-3) by (simp add: Let_def)
  qed
qed

lemma sweep_core_spec:
  assumes "gm_ok (Pods core)"
  shows "gm_ok (Pods (sweep_core ex core))" and "CoreID (sweep_core ex core) = CoreID core"
    and "UsageMillis (sweep_core ex core) - entries_total CPUMillis (Pods (sweep_core ex core)) =
      UsageMillis core - entries_total CPUMillis (Pods core)"
    and "map_of (Pods (sweep_core ex core)) n = (if n \<in> set ex then map_of (Pods core) n else None)"
proof -
  have "UsageMillis core = entries_total CPUMillis (Pods core) + (UsageMillis core - entries_total CPUMillis (Pods core))"
    by simp
  from sweep_loop [OF assms subset_refl assms refl this, of ex]
  show "gm_ok (Pods (sweep_core ex core))" "CoreID (sweep_core ex core) = CoreID core"
    "UsageMillis (sweep_core ex core) - entries_total CPUMillis (Pods (sweep_core ex core)) =
      UsageMillis core - entries_total CPUMillis (Pods core)"
    "map_of (Pods (sweep_core ex core)) n = (if n \<in> set ex then map_of (Pods core) n else None)"
    by (auto simp: sweep_core_def Let_def map_of_eq_None_iff)
qed

lemma map_of_filter_keys: "map_of [(k, v) \<leftarrow> m. P k] n = (if P n then map_of m n else None)"
  by (induction m) auto

lemma sweep_pool_lookup:
  "map_of (Cores (sweep_pool ex p)) i = map_option (sweep_core ex) (map_of (Cores p) i)"
  by (simp add: sweep_pool_def map_of_map_snd)

lemma sweep_pool_spec:
  assumes "pool_ok p"
  shows "pool_ok (sweep_pool ex p)"
    and "registered (sweep_pool ex p) i n = (if n \<in> set ex then registered p i n else None)"
    and "balanced p \<Longrightarrow> balanced (sweep_pool ex p)"
proof -
  have gm: "gm_ok (Pods c)" if "map_of (Cores p) i = Some c" for i c
    using pool_okD [OF assms that] by (simp add: core_ok_iff)
  have core: "core_ok i (sweep_core ex c)" if "map_of (Cores p) i = Some c" for i c
    using pool_okD [OF assms that] sweep_core_spec [OF gm [OF that], of ex]
    by (auto simp: core_ok_iff split: if_splits)
  have "gm_ok (Cores (sweep_pool ex p))"
    using assms by (simp add: pool_ok_def sweep_pool_def keys_map_snd del: map_map)
  then show "pool_ok (sweep_pool ex p)"
    using core by (auto simp: pool_ok_iff sweep_pool_lookup)
  show "registered (sweep_pool ex p) i n = (if n \<in> set ex then registered p i n else None)"
    using sweep_core_spec(4) [OF gm] by (auto simp: pool_defs sweep_pool_lookup split: option.split)
  have "usage (sweep_pool ex p) i - booked (sweep_pool ex p) i = usage p i - booked p i" for i
    using sweep_core_spec(3) [OF gm] by (auto simp: pool_defs sweep_pool_lookup split: option.split)
  then show "balanced (sweep_pool ex p)" if "balanced p"
    using that unfolding balanced_def by (metis eq_iff_diff_eq_0)
qed

section \<open>Timing\<close>

text \<open>\<open>track\<close> returns the message and the time; \<open>duration\<close> is called with it when a reconcile ends.\<close>

record timing =
  longest :: int
  counter :: int

definition no_timing :: timing where
  "no_timing = \<lparr>longest = 0, counter = 1\<rparr>"

text \<open>The new statistics, and the line logged: the time of this call and the longest.\<close>

definition duration :: "int \<Rightarrow> timing \<Rightarrow> timing \<times> (int \<times> int) option" where
  "duration elapsed t =
     (let t1 = (if counter t > 1 \<and> elapsed > longest t then t\<lparr>longest := elapsed\<rparr> else t) in
      if counter t1 mod 50 = 0
      then (t1\<lparr>counter := 1 + 1\<rparr>, Some (elapsed, longest t1))
      else (t1\<lparr>counter := counter t1 + 1\<rparr>, None))"

fun durations :: "int list \<Rightarrow> timing \<Rightarrow> timing \<times> (int \<times> int) list" where
  "durations [] t = (t, [])"
| "durations (e # es) t =
     (let (t1, l) = duration e t; (t2, ls) = durations es t1
      in (t2, (case l of None \<Rightarrow> ls | Some x \<Rightarrow> x # ls)))"

lemma duration_range:
  assumes "1 \<le> counter t" and "counter t \<le> 50"
  shows "2 \<le> counter (fst (duration e t)) \<and> counter (fst (duration e t)) \<le> 50 \<and>
    longest t \<le> longest (fst (duration e t)) \<and> (1 < counter t \<longrightarrow> e \<le> longest (fst (duration e t)))"
proof -
  have "counter t mod 50 = 0 \<longleftrightarrow> counter t = 50" using assms by presburger
  then show ?thesis using assms by (auto simp: duration_def Let_def)
qed

lemma durations_bound:
  assumes "2 \<le> counter t" and "counter t \<le> 50"
  shows "let t' = fst (durations es t) in 2 \<le> counter t' \<and> counter t' \<le> 50 \<and> longest t \<le> longest t' \<and>
    (\<forall>e \<in> set es. e \<le> longest t') \<and> (\<forall>(e, m) \<in> set (snd (durations es t)). e \<le> m \<and> m \<le> longest t')"
  using assms
proof (induction es arbitrary: t)
  case Nil
  then show ?case by simp
next
  case (Cons e es)
  obtain t1 l where d: "duration e t = (t1, l)" by fastforce
  have t1: "2 \<le> counter t1" "counter t1 \<le> 50" "longest t \<le> longest t1" "e \<le> longest t1"
    using duration_range [of t e] Cons.prems d by simp_all
  have "l = Some x \<Longrightarrow> x = (e, longest t1)" for x
    using d by (auto simp: duration_def Let_def split: if_splits)
  then show ?case using Cons.IH [OF t1(1,2)] t1 d
    by (auto simp: Let_def case_prod_beta' split: option.split)
qed

section \<open>Properties\<close>

text \<open>
  Cleaning up by a McKube's name forgets exactly the pods that its namespace does not list with the
  label: afterwards every listed pod has its old runtime state and its old registrations, every other
  name (of whatever namespace) has none, pools stay well formed, and a pool whose cores recorded the
  sums of their pods' loads still does.
\<close>

lemma cleanupPodStateByMcKubeName_forgets:
  assumes "pools_ok s" and "on_list_pods E (calls s) (Some ns) = Inr items"
  shows "let s' = snd (run_state (cleanupPodStateByMcKubeName E ns) s);
      alive = pod_Name ` {p \<in> set items. gm_str (pod_Labels p) rt_label \<noteq> ''''} in
    pools_ok s' \<and>
    (\<forall>n. map_of (podRuntimeState s') n = (if n \<in> alive then map_of (podRuntimeState s) n else None)) \<and>
    (\<forall>node p. map_of (cpuPools s) node = Some p \<longrightarrow>
      (\<forall>i n. registered (pool_at s' node) i n = (if n \<in> alive then registered p i n else None)) \<and>
      (balanced p \<longrightarrow> balanced (pool_at s' node)))"
proof -
  let ?ex = "map pod_Name [p \<leftarrow> items. gm_str (pod_Labels p) rt_label \<noteq> '''']"
  let ?s' = "snd (run_state (cleanupPodStateByMcKubeName E ns) s)"
  have s': "?s' = s\<lparr>calls := calls s @ [ListPods (Some ns)],
      podRuntimeState := [(n, v) \<leftarrow> podRuntimeState s. n \<in> set ?ex],
      cpuPools := map (\<lambda>(n, p). (n, sweep_pool ?ex p)) (cpuPools s)\<rparr>"
    using assms(2) by (simp add: cleanupPodStateByMcKubeName_def list_pods_def Let_def)
  have pools: "map_of (cpuPools ?s') node = map_option (sweep_pool ?ex) (map_of (cpuPools s) node)" for node
    unfolding s' by (simp add: map_of_map_snd)
  have ok: "pool_ok p" if "map_of (cpuPools s) node = Some p" for node p
    using assms(1) that by (simp add: pools_ok_def)
  have "gm_ok (cpuPools ?s')" using assms(1) unfolding s' by (simp add: pools_ok_def keys_map_snd del: map_map)
  then have "pools_ok ?s'" using pools ok sweep_pool_spec(1) by (auto simp: pools_ok_def)
  moreover have "map_of (podRuntimeState ?s') n = (if n \<in> set ?ex then map_of (podRuntimeState s) n else None)" for n
    unfolding s' by (simp add: map_of_filter_keys)
  moreover have "registered (pool_at ?s' node) i n = (if n \<in> set ?ex then registered p i n else None) \<and>
      (balanced p \<longrightarrow> balanced (pool_at ?s' node))" if "map_of (cpuPools s) node = Some p" for node p i n
    using that sweep_pool_spec(2,3) [OF ok [OF that]] by (simp add: pool_at_def pools)
  moreover have alive: "pod_Name ` {p \<in> set items. gm_str (pod_Labels p) rt_label \<noteq> ''''} = set ?ex" by auto
  ultimately show ?thesis unfolding Let_def alive by (intro conjI allI impI) blast+
qed

text \<open>
  The timing statistics. After any number of timed reconciles, the counter is between 1 and 50, the
  longest time is at least that of every reconcile but the first, and every line logged gives a time
  that is at most the maximum it gives.
\<close>

lemma durations_statistics:
  "case durations es no_timing of (t, logged) \<Rightarrow>
     1 \<le> counter t \<and> counter t \<le> 50 \<and> \<not> (\<exists>e \<in> set (tl es). longest t < e) \<and>
     \<not> (\<exists>(e, m) \<in> set logged. m < e \<or> longest t < m)"
proof (cases es)
  case Nil
  then show ?thesis by (simp add: no_timing_def)
next
  case (Cons e rest)
  obtain t1 where d: "duration e no_timing = (t1, None)" "counter t1 = 2"
    by (simp add: duration_def no_timing_def)
  show ?thesis
    using durations_bound [of t1 rest] d Cons by (auto simp: Let_def case_prod_beta' not_less)
qed

end
