(* ===== verification/Pod_Mutator.thy ===== *)
theory Pod_Mutator
  imports RT_Validator Go_Parse Cluster
begin

text \<open>
  The mutating webhook, \<open>internal/webhook/pod_mutator.go\<close>: the annotations it puts on a pod with RT
  settings, and the goroutine it starts to send the settings to the daemon of the pod's node. The
  goroutine waits on two channels, its ticker and its timeout: the order in which they deliver is an
  argument of the model, a list of wake-ups.
\<close>

section \<open>Admission\<close>

definition ann_applied :: string where "ann_applied = ''mckube.io/rt-applied''"
definition ann_pending :: string where "ann_pending = ''mckube.io/rt-pending''"
definition ann_configured :: string where "ann_configured = ''mckube.io/rt-configured''"
definition ann_period :: string where "ann_period = ''mckube.io/rt-period''"
definition ann_low :: string where "ann_low = ''mckube.io/rt-runtime-low''"
definition ann_hi :: string where "ann_hi = ''mckube.io/rt-runtime-hi''"
definition ann_current :: string where "ann_current = ''mckube.io/rt-current''"
definition ann_core :: string where "ann_core = ''mckube.io/rt-core''"

lemmas ann_defs = ann_applied_def ann_pending_def ann_configured_def ann_period_def ann_low_def
  ann_hi_def ann_current_def ann_core_def

definition is_true :: "(string, string) gomap \<Rightarrow> string \<Rightarrow> bool" where
  "is_true ann k \<longleftrightarrow> map_of ann k = Some ''true''"

definition mutator_findRTSettings :: "env \<Rightarrow> Pod \<Rightarrow> (go_error + RTSettings option) act" where
  "mutator_findRTSettings E pod = do {
     l \<leftarrow> list_mckubes E (pod_Namespace pod);
     State_Monad.return (case l of
       Inl e \<Rightarrow> Inl e
     | Inr items \<Rightarrow>
         Inr (case find (\<lambda>m. PodName (Spec m) = pod_Name pod \<and> RTSettings (Spec m) \<noteq> None) items of
                None \<Rightarrow> None
              | Some m \<Rightarrow> RTSettings (Spec m)))
   }"

definition rt_annotate :: "RTSettings \<Rightarrow> (string, string) gomap \<Rightarrow> (string, string) gomap" where
  "rt_annotate rts ann =
     (let a1 = gm_put ann_pending ''true'' ann;
          a2 = gm_put ann_period (show_int (Period rts)) a1;
          a3 = gm_put ann_low (show_int (RuntimeLow rts)) a2;
          a4 = gm_put ann_hi (show_int (RuntimeHi rts)) a3;
          a5 = gm_put ann_current ''low'' a4
      in case Core rts of None \<Rightarrow> a5 | Some c \<Rightarrow> gm_put ann_core c a5)"

text \<open>
  The handler's receiver is nil (\<open>None\<close>), or has a client that is nil or not; the second component of
  the result is the goroutine it starts.
\<close>

definition mutator_Handle ::
    "env \<Rightarrow> bool option \<Rightarrow> go_error + Pod \<Rightarrow> (admission \<times> (Pod \<times> RTSettings) option) act" where
  "mutator_Handle E m decoded =
     (case m of
        None \<Rightarrow> State_Monad.return (Errored 500 (ApiError ''internal error: PodMutator receiver is nil''), None)
      | Some has_client \<Rightarrow>
          if \<not> has_client then State_Monad.return (Errored 500 (ApiError ''internal error: client is nil''), None)
          else (case decoded of
            Inl e \<Rightarrow> State_Monad.return (Errored 400 e, None)
          | Inr pod \<Rightarrow>
              if is_true (pod_Annotations pod) ann_applied then
                State_Monad.return (Allowed ''RT annotations already applied'', None)
              else if is_true (pod_Annotations pod) ann_pending then
                State_Monad.return (Allowed ''RT configuration already in progress'', None)
              else do {
                r \<leftarrow> mutator_findRTSettings E pod;
                State_Monad.return (case r of
                  Inl e \<Rightarrow> (Allowed ''No RT settings found'', None)
                | Inr None \<Rightarrow> (Allowed ''No RT settings configured'', None)
                | Inr (Some rts) \<Rightarrow>
                    if is_true (pod_Annotations pod) ann_pending \<or> is_true (pod_Annotations pod) ann_configured
                    then (Allowed ''RT configuration already handled'', None)
                    else let pod' = pod\<lparr>pod_Annotations := rt_annotate rts (pod_Annotations pod)\<rparr>
                         in (Patched pod', Some (pod', rts)))
              }))"

section \<open>The configuration goroutine\<close>

definition internal_ip :: "NodeAddress list \<Rightarrow> string" where
  "internal_ip addrs = (case find (\<lambda>a. addr_Type a = ''InternalIP'') addrs of
     None \<Rightarrow> '''' | Some a \<Rightarrow> addr_Address a)"

definition bare_id :: "string \<Rightarrow> string" where
  "bare_id cid = (case str_last_index cid ''://'' of None \<Rightarrow> cid | Some i \<Rightarrow> drop (i + 3) cid)"

text \<open>\<open>json.Marshal\<close> of a map writes the keys in order.\<close>

definition daemon_body :: "RTSettings \<Rightarrow> string \<Rightarrow> json" where
  "daemon_body rts cid = JObj
     ([(''container_id'', JStr cid)] @
      (case Core rts of None \<Rightarrow> [] | Some c \<Rightarrow> [(''core'', JStr c)]) @
      [(''period'', JInt (Period rts)), (''runtime'', JInt (RuntimeLow rts))])"

definition applyRTSettingsViaDaemon :: "env \<Rightarrow> Pod \<Rightarrow> RTSettings \<Rightarrow> bool act" where
  "applyRTSettingsViaDaemon E pod rts = do {
     r \<leftarrow> get_node E (NodeName pod);
     case r of
       Inl e \<Rightarrow> State_Monad.return False
     | Inr node \<Rightarrow>
         let nodeIP = internal_ip (node_Addresses node) in
         if nodeIP = '''' then State_Monad.return False
         else (case ContainerStatuses pod of
           [] \<Rightarrow> State_Monad.return False
         | cs # _ \<Rightarrow>
             if cs_ContainerID cs = '''' then State_Monad.return False
             else do {
               resp \<leftarrow> http_post E (daemon_url nodeIP) (daemon_body rts (bare_id (cs_ContainerID cs)));
               State_Monad.return (case resp of Inl e \<Rightarrow> False | Inr code \<Rightarrow> code = 200)
             })
   }"

text \<open>
  The merge patch holds what the annotation changes; the pod becomes the server's answer, or keeps
  the new annotation when the patch fails.
\<close>

definition updatePodRTAnnotation :: "env \<Rightarrow> Pod \<Rightarrow> string \<Rightarrow> string \<Rightarrow> Pod act" where
  "updatePodRTAnnotation E pod key value = do {
     let new = pod\<lparr>pod_Annotations := gm_put key value (pod_Annotations pod)\<rparr>;
     r \<leftarrow> patch_pod E new (if map_of (pod_Annotations pod) key = Some value then [] else [(key, value)]);
     State_Monad.return (case r of Inl e \<Rightarrow> new | Inr p \<Rightarrow> p)
   }"

datatype wake = Tick | Timeout
datatype sched = Configured | AlreadyConfigured | PodGone | TimedOut

definition schedule_tick :: "env \<Rightarrow> Pod \<Rightarrow> RTSettings \<Rightarrow> sched option act" where
  "schedule_tick E pod rts = do {
     r \<leftarrow> get_pod E (pod_Namespace pod) (pod_Name pod);
     case r of
       Inl e \<Rightarrow> State_Monad.return (if str_contains (error_text E e) ''not found'' then Some PodGone else None)
     | Inr updated \<Rightarrow>
         if NodeName updated = '''' then State_Monad.return None
         else if Phase updated \<noteq> PodRunning then State_Monad.return None
         else if is_true (pod_Annotations updated) ann_configured then State_Monad.return (Some AlreadyConfigured)
         else do {
           ok \<leftarrow> applyRTSettingsViaDaemon E updated rts;
           if ok then do {
             u1 \<leftarrow> updatePodRTAnnotation E updated ann_configured ''true'';
             _ \<leftarrow> updatePodRTAnnotation E u1 ann_pending ''false'';
             State_Monad.return (Some Configured)
           }
           else State_Monad.return None
         }
   }"

definition schedule_wake :: "env \<Rightarrow> Pod \<Rightarrow> RTSettings \<Rightarrow> wake \<Rightarrow> sched option act" where
  "schedule_wake E pod rts w =
     (case w of Timeout \<Rightarrow> State_Monad.return (Some TimedOut) | Tick \<Rightarrow> schedule_tick E pod rts)"

definition scheduleRTConfiguration :: "env \<Rightarrow> Pod \<Rightarrow> RTSettings \<Rightarrow> wake list \<Rightarrow> sched option act" where
  "scheduleRTConfiguration E pod rts wakes =
     (if is_true (pod_Annotations pod) ann_configured then State_Monad.return (Some AlreadyConfigured)
      else for_until (schedule_wake E pod rts) wakes)"

section \<open>Reading the annotations back\<close>

definition annotated_settings :: "(string, string) gomap \<Rightarrow> RTSettings option" where
  "annotated_settings ann =
     (case (Option.bind (map_of ann ann_period) parse_int64, Option.bind (map_of ann ann_low) parse_int64,
            Option.bind (map_of ann ann_hi) parse_int64) of
        (Some p, Some l, Some h) \<Rightarrow> Some \<lparr>Period = p, RuntimeLow = l, RuntimeHi = h, Core = map_of ann ann_core\<rparr>
      | _ \<Rightarrow> None)"

definition fits_int64 :: "RTSettings \<Rightarrow> bool" where
  "fits_int64 rts \<longleftrightarrow> list_all (\<lambda>n. - (2 ^ 63) \<le> n \<and> n < 2 ^ 63) [Period rts, RuntimeLow rts, RuntimeHi rts]"

definition rt_keys :: "string set" where
  "rt_keys = {ann_pending, ann_period, ann_low, ann_hi, ann_current, ann_core}"

lemma lookup_annotate:
  "map_of (rt_annotate rts ann) k =
    (if k = ann_core \<and> Core rts \<noteq> None then Core rts
     else if k = ann_current then Some ''low'' else if k = ann_hi then Some (show_int (RuntimeHi rts))
     else if k = ann_low then Some (show_int (RuntimeLow rts)) else if k = ann_period then Some (show_int (Period rts))
     else if k = ann_pending then Some ''true'' else map_of ann k)"
  by (auto simp: rt_annotate_def Let_def split: option.split)

lemma annotated_annotate:
  assumes "fits_int64 rts" and "Core rts = None \<Longrightarrow> map_of ann ann_core = None"
  shows "annotated_settings (rt_annotate rts ann) = Some rts"
proof -
  have "ann_period \<noteq> ann_core" "ann_low \<noteq> ann_core" "ann_hi \<noteq> ann_core" "ann_period \<noteq> ann_current"
    "ann_period \<noteq> ann_hi" "ann_period \<noteq> ann_low" "ann_low \<noteq> ann_current" "ann_low \<noteq> ann_hi" "ann_hi \<noteq> ann_current"
    "ann_core \<noteq> ann_current" "ann_core \<noteq> ann_hi" "ann_core \<noteq> ann_low" "ann_core \<noteq> ann_period" "ann_core \<noteq> ann_pending"
    by (simp_all add: ann_defs)
  moreover have "parse_int64 (show_int (Period rts)) = Some (Period rts)"
    "parse_int64 (show_int (RuntimeLow rts)) = Some (RuntimeLow rts)"
    "parse_int64 (show_int (RuntimeHi rts)) = Some (RuntimeHi rts)"
    using assms(1) by (simp_all add: fits_int64_def parse_int64_show_int)
  ultimately show ?thesis
    using assms(2) by (cases "Core rts") (simp_all add: annotated_settings_def lookup_annotate)
qed

lemma mutator_finds:
  "run_state (mutator_findRTSettings E pod) s =
    (case on_list_mckubes E (calls s) (pod_Namespace pod) of
       Inl e \<Rightarrow> Inl e | Inr items \<Rightarrow> Inr (findRTSettingsForPod pod items),
     s\<lparr>calls := calls s @ [ListMcKubes (pod_Namespace pod)]\<rparr>)"
  by (simp add: mutator_findRTSettings_def list_mckubes_def findRTSettingsForPod_def split: sum.split)

definition unmarked :: "Pod \<Rightarrow> bool" where
  "unmarked pod \<longleftrightarrow> \<not> is_true (pod_Annotations pod) ann_applied \<and>
     \<not> is_true (pod_Annotations pod) ann_pending \<and> \<not> is_true (pod_Annotations pod) ann_configured"

lemma mutator_patched:
  assumes "on_list_mckubes E (calls s) (pod_Namespace pod) = Inr items"
    and "findRTSettingsForPod pod items = Some rts" and "unmarked pod"
  defines "pod' \<equiv> pod\<lparr>pod_Annotations := rt_annotate rts (pod_Annotations pod)\<rparr>"
  shows "run_state (mutator_Handle E (Some True) (Inr pod)) s =
    ((Patched pod', Some (pod', rts)), s\<lparr>calls := calls s @ [ListMcKubes (pod_Namespace pod)]\<rparr>)"
  using assms by (simp add: mutator_Handle_def mutator_finds unmarked_def Let_def)

lemma patched_inv:
  assumes "fst (run_state (mutator_Handle E m (Inr pod)) s) = (Patched pod', spawned)"
  obtains items rts where "on_list_mckubes E (calls s) (pod_Namespace pod) = Inr items"
    and "findRTSettingsForPod pod items = Some rts"
    and "pod' = pod\<lparr>pod_Annotations := rt_annotate rts (pod_Annotations pod)\<rparr>" and "spawned = Some (pod', rts)"
  using assms
  by (auto simp: mutator_Handle_def mutator_finds Let_def split: option.splits if_splits sum.splits)

lemma again_allowed:
  assumes "is_true (pod_Annotations pod) ann_pending"
  shows "run_state (mutator_Handle E (Some True) (Inr pod)) t =
    ((if is_true (pod_Annotations pod) ann_applied then Allowed ''RT annotations already applied''
      else Allowed ''RT configuration already in progress'', None), t)"
  using assms by (simp add: mutator_Handle_def)

section \<open>One wake-up of the goroutine\<close>

definition posts :: "call list \<Rightarrow> nat" where
  "posts cs = length [c \<leftarrow> cs. case c of Post _ _ \<Rightarrow> True | _ \<Rightarrow> False]"

definition patches :: "call list \<Rightarrow> nat" where
  "patches cs = length [c \<leftarrow> cs. case c of PatchPod _ _ _ \<Rightarrow> True | _ \<Rightarrow> False]"

lemma posts_simps [simp]: "posts (xs @ ys) = posts xs + posts ys" "posts [] = 0"
    "posts (c # cs) = (case c of Post _ _ \<Rightarrow> 1 | _ \<Rightarrow> 0) + posts cs"
  by (simp_all add: posts_def split: call.split)

lemma patches_simps [simp]: "patches (xs @ ys) = patches xs + patches ys" "patches [] = 0"
    "patches (c # cs) = (case c of PatchPod _ _ _ \<Rightarrow> 1 | _ \<Rightarrow> 0) + patches cs"
  by (simp_all add: patches_def split: call.split)

text \<open>
  What a wake-up needs to configure the pod, at a history of calls: the answer to the read of the pod
  is running on a node and not yet marked configured, its first container has an id, the node it names
  is answered with an internal address, and the daemon at that address answers 200 to the settings
  with the low runtime for that container.
\<close>

definition config_post :: "RTSettings \<Rightarrow> KNode \<Rightarrow> ContainerStatus \<Rightarrow> call" where
  "config_post rts node cs =
     Post (daemon_url (internal_ip (node_Addresses node))) (daemon_body rts (bare_id (cs_ContainerID cs)))"

definition config_target ::
    "env \<Rightarrow> Pod \<Rightarrow> RTSettings \<Rightarrow> call list \<Rightarrow> Pod \<Rightarrow> KNode \<Rightarrow> ContainerStatus \<Rightarrow> bool" where
  "config_target E pod rts h updated node cs \<longleftrightarrow>
     (let get = GetPod (pod_Namespace pod) (pod_Name pod) in
      on_get_pod E h (pod_Namespace pod) (pod_Name pod) = Inr updated \<and>
      NodeName updated \<noteq> '''' \<and> Phase updated = PodRunning \<and>
      \<not> is_true (pod_Annotations updated) ann_configured \<and>
      on_get_node E (h @ [get]) (NodeName updated) = Inr node \<and> internal_ip (node_Addresses node) \<noteq> '''' \<and>
      (\<exists>rest. ContainerStatuses updated = cs # rest) \<and> cs_ContainerID cs \<noteq> '''' \<and>
      on_post E (h @ [get, GetNode (NodeName updated)]) (daemon_url (internal_ip (node_Addresses node)))
        (daemon_body rts (bare_id (cs_ContainerID cs))) = Inr 200)"

text \<open>
  The calls it makes then: the two reads, the request, the patch marking the pod configured, and the
  patch of what that patch answered (or of the marked pod, if it failed) taking the pending mark back.
\<close>

definition marked_configured :: "Pod \<Rightarrow> Pod" where
  "marked_configured p = p\<lparr>pod_Annotations := gm_put ann_configured ''true'' (pod_Annotations p)\<rparr>"

definition patched_as :: "env \<Rightarrow> call list \<Rightarrow> Pod \<Rightarrow> Pod" where
  "patched_as E h p = (case on_patch_pod E h (marked_configured p) [(ann_configured, ''true'')] of
     Inl e \<Rightarrow> marked_configured p | Inr q \<Rightarrow> q)"

definition mark_patch :: "Pod \<Rightarrow> call" where
  "mark_patch p = PatchPod (pod_Namespace p) (pod_Name p) [(ann_configured, ''true'')]"

definition clear_patch :: "Pod \<Rightarrow> call" where
  "clear_patch p = PatchPod (pod_Namespace p) (pod_Name p)
     (if map_of (pod_Annotations p) ann_pending = Some ''false'' then [] else [(ann_pending, ''false'')])"

definition sent_settings :: "env \<Rightarrow> Pod \<Rightarrow> RTSettings \<Rightarrow> call list \<Rightarrow> call list \<Rightarrow> bool" where
  "sent_settings E pod rts h new \<longleftrightarrow> (\<exists>updated node cs. config_target E pod rts h updated node cs \<and>
     (let sent = [GetPod (pod_Namespace pod) (pod_Name pod), GetNode (NodeName updated), config_post rts node cs] in
      new = sent @ [mark_patch updated, clear_patch (patched_as E (h @ sent) updated)]))"

lemma run_via_daemon:
  obtains (failed) new where "run_state (applyRTSettingsViaDaemon E p rts) s = (False, s\<lparr>calls := calls s @ new\<rparr>)"
      and "posts new \<le> 1" and "patches new = 0"
  | (sent) node cs rest where "on_get_node E (calls s) (NodeName p) = Inr node"
      and "internal_ip (node_Addresses node) \<noteq> ''''" and "ContainerStatuses p = cs # rest" and "cs_ContainerID cs \<noteq> ''''"
      and "on_post E (calls s @ [GetNode (NodeName p)]) (daemon_url (internal_ip (node_Addresses node)))
        (daemon_body rts (bare_id (cs_ContainerID cs))) = Inr 200"
      and "run_state (applyRTSettingsViaDaemon E p rts) s =
        (True, s\<lparr>calls := calls s @ [GetNode (NodeName p), config_post rts node cs]\<rparr>)"
proof -
  let ?run = "run_state (applyRTSettingsViaDaemon E p rts) s" and ?get = "GetNode (NodeName p)"
  show thesis
  proof (cases "\<exists>node cs rest. on_get_node E (calls s) (NodeName p) = Inr node \<and>
      internal_ip (node_Addresses node) \<noteq> '''' \<and> ContainerStatuses p = cs # rest \<and> cs_ContainerID cs \<noteq> ''''")
    case False
    then have "?run = (False, s\<lparr>calls := calls s @ [?get]\<rparr>)"
      by (auto simp: applyRTSettingsViaDaemon_def get_node_def Let_def split: sum.split list.split)
    then show thesis by (rule failed) simp_all
  next
    case True
    then obtain node cs rest where n: "on_get_node E (calls s) (NodeName p) = Inr node"
      "internal_ip (node_Addresses node) \<noteq> ''''" "ContainerStatuses p = cs # rest" "cs_ContainerID cs \<noteq> ''''"
      by blast
    let ?post = "on_post E (calls s @ [?get]) (daemon_url (internal_ip (node_Addresses node)))
      (daemon_body rts (bare_id (cs_ContainerID cs)))"
    have run: "?run = (case ?post of Inl e \<Rightarrow> False | Inr code \<Rightarrow> code = 200,
        s\<lparr>calls := calls s @ [?get, config_post rts node cs]\<rparr>)"
      using n by (simp add: applyRTSettingsViaDaemon_def get_node_def http_post_def config_post_def Let_def)
    show thesis
    proof (cases "?post = Inr 200")
      case True
      then show thesis using n run by (intro sent) simp_all
    next
      case False
      then have "?run = (False, s\<lparr>calls := calls s @ [?get, config_post rts node cs]\<rparr>)"
        unfolding run by (auto split: sum.split)
      then show thesis by (rule failed) (simp_all add: config_post_def)
    qed
  qed
qed

lemma run_finalise:
  assumes "\<not> is_true (pod_Annotations p) ann_configured"
  shows "run_state (do { u1 \<leftarrow> updatePodRTAnnotation E p ann_configured ''true'';
        _ \<leftarrow> updatePodRTAnnotation E u1 ann_pending ''false''; State_Monad.return r }) s =
      (r, s\<lparr>calls := calls s @ [mark_patch p, clear_patch (patched_as E (calls s) p)]\<rparr>)"
  using assms
  by (auto simp: updatePodRTAnnotation_def patch_pod_def Let_def is_true_def mark_patch_def clear_patch_def
      patched_as_def marked_configured_def split: sum.split)

lemma target_accepted:
  assumes "config_target E pod rts (calls s) p node cs"
  shows "fst (run_state (applyRTSettingsViaDaemon E p rts)
    (s\<lparr>calls := calls s @ [GetPod (pod_Namespace pod) (pod_Name pod)]\<rparr>))"
  using assms by (auto simp: config_target_def Let_def applyRTSettingsViaDaemon_def get_node_def http_post_def)

text \<open>
  A wake-up that can configure the pod does so. Any other posts at most once, patches nothing and does
  not report success.
\<close>

lemma run_tick:
  obtains (waits) r new where "run_state (schedule_tick E pod rts) s = (r, s\<lparr>calls := calls s @ new\<rparr>)"
      and "posts new \<le> 1" and "patches new = 0" and "r \<noteq> Some Configured"
      and "\<nexists>updated node cs. config_target E pod rts (calls s) updated node cs"
  | (sends) new where "run_state (schedule_tick E pod rts) s = (Some Configured, s\<lparr>calls := calls s @ new\<rparr>)"
      and "posts new = 1" and "sent_settings E pod rts (calls s) new"
proof -
  let ?get = "GetPod (pod_Namespace pod) (pod_Name pod)"
  let ?s1 = "s\<lparr>calls := calls s @ [?get]\<rparr>" and ?run = "run_state (schedule_tick E pod rts) s"
  show thesis
  proof (cases "\<exists>p. on_get_pod E (calls s) (pod_Namespace pod) (pod_Name pod) = Inr p \<and> NodeName p \<noteq> '''' \<and>
      Phase p = PodRunning \<and> \<not> is_true (pod_Annotations p) ann_configured")
    case False
    then have "snd ?run = ?s1" "fst ?run \<noteq> Some Configured"
      by (auto simp: schedule_tick_def get_pod_def split: sum.split)
    moreover have "\<nexists>updated node cs. config_target E pod rts (calls s) updated node cs"
      using False by (auto simp: config_target_def Let_def)
    ultimately show thesis by (intro waits [of "fst ?run" "[?get]"]) (simp_all add: prod_eq_iff)
  next
    case True
    then obtain p where p: "on_get_pod E (calls s) (pod_Namespace pod) (pod_Name pod) = Inr p" "NodeName p \<noteq> ''''"
      "Phase p = PodRunning" "\<not> is_true (pod_Annotations p) ann_configured" by blast
    let ?rest = "\<lambda>ok. if ok then do { u1 \<leftarrow> updatePodRTAnnotation E p ann_configured ''true'';
        _ \<leftarrow> updatePodRTAnnotation E u1 ann_pending ''false''; State_Monad.return (Some Configured) }
      else State_Monad.return None"
    have run: "?run = run_state (State_Monad.bind (applyRTSettingsViaDaemon E p rts) ?rest) ?s1"
      using p by (simp add: schedule_tick_def get_pod_def)
    show thesis
    proof (cases rule: run_via_daemon [of E p rts ?s1])
      case (failed new)
      have "\<nexists>updated node cs. config_target E pod rts (calls s) updated node cs"
      proof
        assume "\<exists>updated node cs. config_target E pod rts (calls s) updated node cs"
        then obtain node cs where "config_target E pod rts (calls s) p node cs"
          using p(1) by (auto simp: config_target_def Let_def)
        from target_accepted [OF this] show False using failed(1) by simp
      qed
      then show thesis using failed run by (intro waits [of None "?get # new"]) simp_all
    next
      case (sent node cs rest)
      let ?sent = "[?get, GetNode (NodeName p), config_post rts node cs]"
      let ?new = "?sent @ [mark_patch p, clear_patch (patched_as E (calls s @ ?sent) p)]"
      have target: "config_target E pod rts (calls s) p node cs"
        using p sent(1-5) by (simp add: config_target_def Let_def)
      have "?run = (Some Configured, s\<lparr>calls := calls s @ ?new\<rparr>)"
        unfolding run using run_finalise [OF p(4), of E "Some Configured" "s\<lparr>calls := calls s @ ?sent\<rparr>"]
        by (simp add: sent(6))
      moreover have "sent_settings E pod rts (calls s) ?new"
        unfolding sent_settings_def using target by (intro exI [of _ p] exI [of _ node] exI [of _ cs]) simp
      moreover have "posts ?new = 1" by (simp add: config_post_def mark_patch_def clear_patch_def)
      ultimately show thesis by (intro sends)
    qed
  qed
qed

section \<open>The loop\<close>

definition ticks :: "wake list \<Rightarrow> nat" where
  "ticks ws = length (takeWhile (\<lambda>w. w = Tick) ws)"

definition loop_result :: "env \<Rightarrow> Pod \<Rightarrow> RTSettings \<Rightarrow> call list \<Rightarrow> sched option \<Rightarrow> call list \<Rightarrow> bool" where
  "loop_result E pod rts h r new \<longleftrightarrow>
     (if r = Some Configured
      then \<exists>pre final. new = pre @ final \<and> patches pre = 0 \<and> sent_settings E pod rts (h @ pre) final
      else patches new = 0)"

lemma loop_result_Cons:
  assumes "patches new = 0" and "loop_result E pod rts (h @ new) r later"
  shows "loop_result E pod rts h r (new @ later)"
proof (cases "r = Some Configured")
  case True
  then obtain pre final where "later = pre @ final" "patches pre = 0" "sent_settings E pod rts ((h @ new) @ pre) final"
    using assms(2) by (auto simp: loop_result_def)
  then have "new @ later = (new @ pre) @ final \<and> patches (new @ pre) = 0 \<and>
      sent_settings E pod rts (h @ (new @ pre)) final"
    using assms(1) by simp
  then show ?thesis using True unfolding loop_result_def by metis
next
  case False
  then show ?thesis using assms by (simp add: loop_result_def)
qed

lemma loop_result_sent: "sent_settings E pod rts h new \<Longrightarrow> loop_result E pod rts h (Some Configured) new"
  unfolding loop_result_def if_P [OF refl] by (intro exI [of _ "[]"] exI [of _ new]) simp

definition after_wakes :: "env \<Rightarrow> Pod \<Rightarrow> RTSettings \<Rightarrow> wake list \<Rightarrow> sys \<Rightarrow> sched option \<times> sys \<Rightarrow> bool" where
  "after_wakes E pod rts ws s res \<longleftrightarrow> (\<exists>new. snd res = s\<lparr>calls := calls s @ new\<rparr> \<and> posts new \<le> ticks ws \<and>
     (fst res = None \<longrightarrow> Timeout \<notin> set ws) \<and> loop_result E pod rts (calls s) (fst res) new)"

lemma after_wakesI:
  assumes "posts new \<le> ticks ws" and "r = None \<Longrightarrow> Timeout \<notin> set ws" and "loop_result E pod rts (calls s) r new"
  shows "after_wakes E pod rts ws s (r, s\<lparr>calls := calls s @ new\<rparr>)"
  using assms unfolding after_wakes_def by (intro exI [of _ new]) simp

lemma after_waiting_tick:
  assumes "posts new \<le> 1" and "patches new = 0"
    and "after_wakes E pod rts ws (s\<lparr>calls := calls s @ new\<rparr>) res"
  shows "after_wakes E pod rts (Tick # ws) s res"
proof -
  obtain r s' where res: "res = (r, s')" by (cases res)
  obtain later where l: "s' = s\<lparr>calls := calls s @ new @ later\<rparr>" "posts later \<le> ticks ws"
    "r = None \<longrightarrow> Timeout \<notin> set ws" "loop_result E pod rts (calls s @ new) r later"
    using assms(3) unfolding after_wakes_def res by auto
  show ?thesis
    unfolding res l(1)
    by (rule after_wakesI) (use assms l loop_result_Cons [OF assms(2) l(4)] in \<open>auto simp: ticks_def\<close>)
qed

lemma run_schedule_loop:
  "after_wakes E pod rts ws s (run_state (for_until (schedule_wake E pod rts) ws) s)"
proof (induction ws arbitrary: s)
  case Nil
  show ?case unfolding after_wakes_def by (intro exI [of _ "[]"]) (simp add: loop_result_def)
next
  case (Cons w ws)
  show ?case
  proof (cases w)
    case Timeout
    then show ?thesis
      unfolding after_wakes_def by (intro exI [of _ "[]"]) (simp add: schedule_wake_def loop_result_def)
  next
    case Tick
    show ?thesis
    proof (cases rule: run_tick [of E pod rts s])
      case (waits r new)
      show ?thesis
      proof (cases r)
        case None
        then have run: "run_state (for_until (schedule_wake E pod rts) (w # ws)) s =
            run_state (for_until (schedule_wake E pod rts) ws) (s\<lparr>calls := calls s @ new\<rparr>)"
          using waits(1) by (simp add: Tick schedule_wake_def)
        show ?thesis unfolding run unfolding Tick by (rule after_waiting_tick [OF waits(2,3) Cons.IH])
      next
        case (Some x)
        then have run: "run_state (for_until (schedule_wake E pod rts) (w # ws)) s = (r, s\<lparr>calls := calls s @ new\<rparr>)"
          using waits(1) by (simp add: Tick schedule_wake_def)
        show ?thesis unfolding run unfolding Tick
          by (rule after_wakesI) (use waits(2-4) Some in \<open>simp_all add: ticks_def loop_result_def\<close>)
      qed
    next
      case (sends new)
      then have run: "run_state (for_until (schedule_wake E pod rts) (w # ws)) s =
          (Some Configured, s\<lparr>calls := calls s @ new\<rparr>)"
        by (simp add: Tick schedule_wake_def)
      show ?thesis unfolding run unfolding Tick
        by (rule after_wakesI) (use sends(2) loop_result_sent [OF sends(3)] in \<open>simp_all add: ticks_def\<close>)
    qed
  qed
qed

lemma run_for_until_append:
  assumes "run_state (for_until f xs) s = (None, t)"
  shows "run_state (for_until f (xs @ ys)) s = run_state (for_until f ys) t"
  using assms by (induction xs arbitrary: s) (auto split: prod.splits option.splits)

section \<open>Properties\<close>

text \<open>
  C26: admission by the mutating webhook is a round trip. A pod without markers whose McKube list
  holds settings for it comes back changed in its annotations only; reading the annotations back gives
  exactly the settings, the pod is marked pending at the low runtime, other annotations are kept, one
  goroutine is started for that pod and those settings, and submitting the result again is allowed
  without another list call and without another goroutine.
\<close>

theorem mutator_Handle_roundtrip:
  assumes "on_list_mckubes E (calls s) (pod_Namespace pod) = Inr items"
    and "findRTSettingsForPod pod items = Some rts" and "unmarked pod" and "fits_int64 rts"
    and "Core rts = None \<Longrightarrow> map_of (pod_Annotations pod) ann_core = None"
  shows "\<exists>pod'. run_state (mutator_Handle E (Some True) (Inr pod)) s =
      ((Patched pod', Some (pod', rts)), s\<lparr>calls := calls s @ [ListMcKubes (pod_Namespace pod)]\<rparr>) \<and>
    pod' = pod\<lparr>pod_Annotations := pod_Annotations pod'\<rparr> \<and> annotated_settings (pod_Annotations pod') = Some rts \<and>
    is_true (pod_Annotations pod') ann_pending \<and> map_of (pod_Annotations pod') ann_current = Some ''low'' \<and>
    (\<forall>k. k \<notin> rt_keys \<longrightarrow> map_of (pod_Annotations pod') k = map_of (pod_Annotations pod) k) \<and>
    (\<forall>t. snd (run_state (mutator_Handle E (Some True) (Inr pod')) t) = t \<and>
      snd (fst (run_state (mutator_Handle E (Some True) (Inr pod')) t)) = None)"
proof -
  let ?pod' = "pod\<lparr>pod_Annotations := rt_annotate rts (pod_Annotations pod)\<rparr>"
  have "is_true (rt_annotate rts (pod_Annotations pod)) ann_pending"
    by (simp add: is_true_def lookup_annotate) (simp add: ann_defs)
  moreover have "map_of (rt_annotate rts (pod_Annotations pod)) ann_current = Some ''low''"
    by (simp add: lookup_annotate) (simp add: ann_defs)
  moreover have "\<forall>k. k \<notin> rt_keys \<longrightarrow>
      map_of (rt_annotate rts (pod_Annotations pod)) k = map_of (pod_Annotations pod) k"
    by (auto simp: lookup_annotate rt_keys_def)
  ultimately show ?thesis
    using annotated_annotate [OF assms(4,5)]
    by (intro exI [of _ ?pod'] conjI mutator_patched [OF assms(1-3)]) (simp_all add: again_allowed)
qed

theorem mutator_Handle_roundtrip_witness:
  "\<exists>pod'. pod' = demo_rt_pod\<lparr>pod_Annotations := pod_Annotations pod'\<rparr> \<and>
     annotated_settings (pod_Annotations pod') =
       Some \<lparr>Period = 1000, RuntimeLow = 300, RuntimeHi = 500, Core = Some ''2-3''\<rparr>"
proof -
  let ?E = "demo_env\<lparr>on_list_mckubes := \<lambda>_ _. Inr [demo_mckube (Some ''2-3'')]\<rparr>"
  let ?rts = "\<lparr>Period = 1000, RuntimeLow = 300, RuntimeHi = 500, Core = Some ''2-3''\<rparr>"
  have l: "on_list_mckubes ?E (calls demo_sys) (pod_Namespace demo_rt_pod) = Inr [demo_mckube (Some ''2-3'')]" by simp
  have f: "findRTSettingsForPod demo_rt_pod [demo_mckube (Some ''2-3'')] = Some ?rts"
    by (simp add: findRTSettingsForPod_def demo_rt_pod_def demo_mckube_def)
  have u: "unmarked demo_rt_pod" by (simp add: unmarked_def is_true_def demo_rt_pod_def)
  have r: "fits_int64 ?rts" by (simp add: fits_int64_def)
  show ?thesis
    by (rule exE [OF mutator_Handle_roundtrip [OF l f u r]]) (simp, blast)
qed

text \<open>
  C27: the two webhooks judge the same settings. Whenever the mutating webhook patches a pod and starts
  a goroutine, the validating webhook, given the patched pod and the same list, answers by the checks
  on exactly those settings. In particular the goroutine runs also for a pod that is then denied.
\<close>

theorem webhooks_agree:
  assumes "fst (run_state (mutator_Handle E m (Inr pod)) s) = (Patched pod', spawned)"
  shows "\<exists>rts. spawned = Some (pod', rts) \<and>
    validator_Handle (\<lambda>ns. on_list_mckubes E (calls s) ns) (Inr pod') =
      (case validateRTSettings rts of Some e \<Rightarrow> DeniedRT e
       | None \<Rightarrow> Allowed ''RT settings are valid, pod creation allowed'')"
proof -
  obtain items rts where p: "on_list_mckubes E (calls s) (pod_Namespace pod) = Inr items"
    "findRTSettingsForPod pod items = Some rts"
    "pod' = pod\<lparr>pod_Annotations := rt_annotate rts (pod_Annotations pod)\<rparr>" "spawned = Some (pod', rts)"
    using assms by (rule patched_inv)
  then have "findRTSettingsForPod pod' items = Some rts" "pod_Namespace pod' = pod_Namespace pod"
    by (simp_all add: findRTSettingsForPod_def)
  then show ?thesis using p by (simp add: validator_Handle_def)
qed

theorem webhooks_agree_witness:
  "\<exists>pod'. validator_Handle (\<lambda>_. Inr [demo_mckube None]) (Inr pod') =
     (case validateRTSettings \<lparr>Period = 1000, RuntimeLow = 300, RuntimeHi = 500, Core = None\<rparr> of
        Some e \<Rightarrow> DeniedRT e | None \<Rightarrow> Allowed ''RT settings are valid, pod creation allowed'')"
proof -
  let ?E = "demo_env\<lparr>on_list_mckubes := \<lambda>_ _. Inr [demo_mckube None]\<rparr>"
  let ?rts = "\<lparr>Period = 1000, RuntimeLow = 300, RuntimeHi = 500, Core = None\<rparr>"
  let ?pod' = "demo_rt_pod\<lparr>pod_Annotations := rt_annotate ?rts (pod_Annotations demo_rt_pod)\<rparr>"
  have l: "on_list_mckubes ?E (calls demo_sys) (pod_Namespace demo_rt_pod) = Inr [demo_mckube None]" by simp
  have f: "findRTSettingsForPod demo_rt_pod [demo_mckube None] = Some ?rts"
    by (simp add: findRTSettingsForPod_def demo_rt_pod_def demo_mckube_def)
  have u: "unmarked demo_rt_pod" by (simp add: unmarked_def is_true_def demo_rt_pod_def)
  have "fst (run_state (mutator_Handle ?E (Some True) (Inr demo_rt_pod)) demo_sys) = (Patched ?pod', Some (?pod', ?rts))"
    using mutator_patched [OF l f u] by simp
  from webhooks_agree [OF this] show ?thesis by (intro exI [of _ ?pod']) simp
qed

text \<open>
  C28: the configuration goroutine, whatever the API server, the daemon and the timers do: it sends at
  most one request per tick before the timeout; it has returned once the timeout was delivered; it
  reports success only when its last calls were a read of its pod, answered with a running pod that is
  not yet configured, a read of that pod's node, a request to the node's internal address with the low
  runtime for the pod's first container that the daemon answered with 200, and the two annotation
  patches of that pod; and it patches nothing in any other run.
\<close>

theorem scheduleRTConfiguration_sends:
  "let r = run_state (scheduleRTConfiguration E pod rts ws) s; new = new_calls s (snd r) in
     snd r = s\<lparr>calls := calls s @ new\<rparr> \<and> posts new \<le> ticks ws \<and>
     \<not> (fst r = None \<and> Timeout \<in> set ws) \<and>
     (if fst r = Some Configured
      then \<exists>pre final. new = pre @ final \<and> patches pre = 0 \<and> sent_settings E pod rts (calls s @ pre) final
      else patches new = 0)"
proof (cases "is_true (pod_Annotations pod) ann_configured")
  case True
  then have "run_state (scheduleRTConfiguration E pod rts ws) s = (Some AlreadyConfigured, s)"
    by (simp add: scheduleRTConfiguration_def)
  then show ?thesis by (simp add: new_calls_def)
next
  case False
  obtain r s' where run: "run_state (scheduleRTConfiguration E pod rts ws) s = (r, s')" by fastforce
  then have "after_wakes E pod rts ws s (r, s')"
    using False run_schedule_loop [of E pod rts ws s] by (simp add: scheduleRTConfiguration_def)
  then obtain new where n: "s' = s\<lparr>calls := calls s @ new\<rparr>" "posts new \<le> ticks ws"
    "r = None \<longrightarrow> Timeout \<notin> set ws" "loop_result E pod rts (calls s) r new"
    unfolding after_wakes_def by auto
  then have new: "new_calls s s' = new" by (simp add: new_calls_def)
  show ?thesis
    unfolding Let_def run fst_conv snd_conv new
    using n(1-3) n(4) [unfolded loop_result_def] by (intro conjI) blast+
qed

text \<open>
  C29: the goroutine succeeds as soon as it can. If it is still waiting after some wake-ups, and at the
  next tick its pod is answered running, on a node with an internal address, with the id of its first
  container, not yet configured, and the daemon answers 200, then that tick makes exactly the five
  calls and the goroutine returns successfully, whatever came before, whatever the two patches are
  answered and whatever would come after. In particular it succeeds when both patches fail, as they do
  once the context of the admission request is cancelled: the pod then stays marked pending.
\<close>

theorem scheduleRTConfiguration_succeeds:
  assumes "\<not> is_true (pod_Annotations pod) ann_configured"
    and "run_state (scheduleRTConfiguration E pod rts before) s = (None, t)"
    and "config_target E pod rts (calls t) updated node cs"
  shows "\<exists>new. run_state (scheduleRTConfiguration E pod rts (before @ Tick # later)) s =
      (Some Configured, t\<lparr>calls := calls t @ new\<rparr>) \<and> sent_settings E pod rts (calls t) new"
proof -
  let ?loop = "\<lambda>ws. for_until (schedule_wake E pod rts) ws"
  have before: "run_state (?loop before) s = (None, t)"
    using assms(1,2) by (simp add: scheduleRTConfiguration_def)
  have run: "run_state (scheduleRTConfiguration E pod rts (before @ Tick # later)) s = run_state (?loop (Tick # later)) t"
    using assms(1) run_for_until_append [OF before, of "Tick # later"] by (simp add: scheduleRTConfiguration_def)
  show ?thesis
  proof (cases rule: run_tick [of E pod rts t])
    case (waits r new)
    then show ?thesis using assms(3) by blast
  next
    case (sends new)
    then show ?thesis unfolding run by (intro exI [of _ new]) (simp add: schedule_wake_def)
  qed
qed

text \<open>
  The example: the first tick finds no node; at the second the node is there and the daemon accepts,
  and both patches fail.
\<close>

definition config_node :: KNode where
  "config_node = \<lparr>node_Name = ''worker'', node_Annotations = [], node_Taints = [],
     node_Addresses = [\<lparr>addr_Type = ''Hostname'', addr_Address = ''worker''\<rparr>,
       \<lparr>addr_Type = ''InternalIP'', addr_Address = ''10.0.0.1''\<rparr>]\<rparr>"

definition config_env :: env where
  "config_env = demo_env\<lparr>on_get_pod := \<lambda>_ _ _. Inr demo_rt_pod,
     on_get_node := \<lambda>h _. if length h < 3 then Inl NotFound else Inr config_node,
     on_patch_pod := \<lambda>_ _ _. Inl (ApiError ''context canceled'')\<rparr>"

theorem scheduleRTConfiguration_succeeds_witness:
  "let rts = \<lparr>Period = 1000, RuntimeLow = 300, RuntimeHi = 500, Core = None\<rparr>;
       get = GetPod ''default'' ''p'' in
   \<exists>s'. run_state (scheduleRTConfiguration config_env demo_rt_pod rts [Tick, Tick, Timeout]) demo_sys =
       (Some Configured, s') \<and>
     calls s' = [get, GetNode ''worker'', get, GetNode ''worker'', Post (daemon_url ''10.0.0.1'') (daemon_body rts ''abc''),
       PatchPod ''default'' ''p'' [(ann_configured, ''true'')], PatchPod ''default'' ''p'' [(ann_pending, ''false'')]]"
proof -
  let ?rts = "\<lparr>Period = 1000, RuntimeLow = 300, RuntimeHi = 500, Core = None\<rparr>"
  let ?t = "demo_sys\<lparr>calls := [GetPod ''default'' ''p'', GetNode ''worker'']\<rparr>"
  let ?cs = "\<lparr>cs_Name = ''c'', cs_ContainerID = ''containerd://abc''\<rparr>"
  have pod: "pod_Namespace demo_rt_pod = ''default''" "pod_Name demo_rt_pod = ''p''" "NodeName demo_rt_pod = ''worker''"
    "Phase demo_rt_pod = PodRunning" "ContainerStatuses demo_rt_pod = [?cs]" "pod_Annotations demo_rt_pod = []"
    by (simp_all add: demo_rt_pod_def PodRunning_def)
  have unconf: "\<not> is_true (pod_Annotations demo_rt_pod) ann_configured" by (simp add: is_true_def pod)
  have E: "on_get_pod config_env h a b = Inr demo_rt_pod" "on_post config_env h u j = Inr 200"
    "on_get_node config_env h n = (if length h < 3 then Inl NotFound else Inr config_node)"
    "on_patch_pod config_env h p d = Inl (ApiError ''context canceled'')" for h a b u j n p d
    by (simp_all add: config_env_def demo_env_def)
  have ip: "internal_ip (node_Addresses config_node) = ''10.0.0.1''" by (simp add: config_node_def internal_ip_def)
  have bare: "bare_id ''containerd://abc'' = ''abc''" by code_simp
  have before: "run_state (scheduleRTConfiguration config_env demo_rt_pod ?rts [Tick]) demo_sys = (None, ?t)"
    using unconf
    by (simp add: scheduleRTConfiguration_def schedule_wake_def schedule_tick_def applyRTSettingsViaDaemon_def
        get_pod_def get_node_def E pod demo_sys_def is_true_def)
  have target: "config_target config_env demo_rt_pod ?rts (calls ?t) demo_rt_pod config_node ?cs"
    using unconf by (simp add: config_target_def E pod ip)
  obtain new where new: "run_state (scheduleRTConfiguration config_env demo_rt_pod ?rts ([Tick] @ Tick # [Timeout])) demo_sys =
      (Some Configured, ?t\<lparr>calls := calls ?t @ new\<rparr>)" "sent_settings config_env demo_rt_pod ?rts (calls ?t) new"
    using scheduleRTConfiguration_succeeds [OF unconf before target, of "[Timeout]"] by blast
  from new(2) have "new = [GetPod ''default'' ''p'', GetNode ''worker'',
      Post (daemon_url ''10.0.0.1'') (daemon_body ?rts ''abc''),
      PatchPod ''default'' ''p'' [(ann_configured, ''true'')], PatchPod ''default'' ''p'' [(ann_pending, ''false'')]]"
    by (auto simp: sent_settings_def config_target_def E pod Let_def config_post_def ip bare mark_patch_def
        clear_patch_def patched_as_def marked_configured_def)
  then show ?thesis unfolding Let_def using new(1) by simp
qed

end
