(* ===== verification/Spec2Isabelle.thy ===== *)
theory Spec2Isabelle
  imports Deep_Copy Startup Core_Set Go_Parse RT_Validator RT_Load CPU_Pool Criticality_Order Data_Collector Pod_Spec Pressure
    Runtime_State Preemption Reconciler Controller Runtime_Machine Housekeeping Pod_Mutator
begin

text \<open>
  A verification development for MC-Kube, a Kubernetes operator for mixed-criticality real-time pods.
  A pod's real-time settings (period, a low and a high runtime, a set of cores) are held in a McKube
  resource. The operator keeps, per node, a pool of cores with the millicores in use; it registers a
  pod on its cores and preempts pods of lower criticality when a core would exceed 90 percent; it
  raises a pod from its low to its high runtime when a daemon reports an overrun; it degrades and
  evicts pods, tier by tier of criticality, while a node is under CPU pressure, and lowers all pods of
  a node again when the pressure is over. Two webhooks check and annotate pods at admission.

  \<^bold>\<open>The parts and where they are.\<close>
  \<^item> \<open>cmd/main.go\<close> and \<open>SetupWithManager\<close>: \<open>Startup\<close>, as the sequence of calls made (\<open>program\<close>, \<open>main\<close>).
  \<^item> \<open>api/v1/mckube_types.go\<close>: the records of \<open>McKube_Types\<close>; \<open>api/v1/zz_generated.deepcopy.go\<close>: \<open>Deep_Copy\<close>,
    the same structs with pointers into a store.
  \<^item> \<open>internal/webhook/rt_validator.go\<close>: \<open>RT_Validator\<close>; \<open>internal/webhook/pod_mutator.go\<close>: \<open>Pod_Mutator\<close>
    (\<open>mutator_Handle\<close>, and the goroutine \<open>scheduleRTConfiguration\<close>).
  \<^item> \<open>internal/ipvs/data_collector.go\<close>: \<open>Data_Collector\<close>; \<open>internal/ipvs/pod_spec_handler.go\<close>: \<open>Pod_Spec\<close> and the
    selectors of \<open>Tiers\<close>; \<open>internal/ipvs/event_handler.go\<close>: \<open>Tiers\<close> (tiers and pressure state of a node),
    \<open>Criticality_Order\<close> (their order as a type class),
    \<open>Pressure\<close> (\<open>EvictPod\<close>, \<open>ProcessCurrentTier\<close>, \<open>HandleNodeCPUPressure\<close>) and \<open>Controller\<close> (\<open>FindObjectsForNode\<close>).
  \<^item> \<open>internal/controller/mckube_controller.go\<close>: \<open>Core_Set\<close> (\<open>parseCoreSet\<close>), \<open>CPU_Pool\<close> (pools and cores),
    \<open>RT_Load\<close> (runtime to millicores, the 90 percent test), \<open>Preemption\<close> (\<open>checkAndPreemptForPod\<close>,
    \<open>preemptPod\<close>, \<open>updateCPUPoolForPod\<close>), \<open>Runtime_State\<close> (overrun, recovery, applying settings, cleanup),
    \<open>Taint_Thread\<close>, \<open>Reconciler\<close> (\<open>Reconcile\<close>, \<open>findObjectsForPod\<close>), \<open>Controller\<close> (the endpoint for overruns
    and the wiring) and \<open>Housekeeping\<close>.
  \<^item> Below them: \<open>Prelude_Go\<close> (maps, integers, loops, the contracts of maps and frames), \<open>Go_Text\<close> and
    \<open>Go_Parse\<close> (\<open>strings\<close>, \<open>fmt\<close>, \<open>strconv\<close>), \<open>Float64\<close> (double precision), and \<open>Cluster\<close>: the package variables
    as the record \<open>sys\<close>, and the calls to the API server and the daemons. \<open>Runtime_Machine\<close> holds the abstract
    specification of the runtime states.

  \<^bold>\<open>State and environment.\<close> A handler is a computation on \<open>sys\<close> (\<open>podRuntimeState\<close>, \<open>cpuPools\<close>,
  \<open>lastCpuBusyState\<close>, \<open>PressureState\<close>, \<open>ProcessingNodes\<close>, \<open>Timers\<close>, and \<open>calls\<close>, the history of all calls
  made). What the API server, the daemons and the clock answer, and the order in which Go ranges over a
  map, are functions of that history in the record \<open>env\<close>: they may depend on anything that happened and
  fail at any time. Properties that need more state it: \<open>env_orders\<close> (a range over a map visits every
  entry once, as Go specifies); and where a property names the pod that is evicted, it does so under
  \<open>writes_keep_identity\<close> (the answer to an update or a resize is a pod of the same name and namespace:
  the API does not let a write change them). \<open>ctl_step\<close> of
  \<open>Controller\<close> composes the handlers: one rule per event, and one for a goroutine of a node event that
  runs later; every property about reachable states is about all interleavings of these steps.

  \<^bold>\<open>What the lemmas show.\<close>
  \<^item> The controller: the tables stay well formed, a pod is high only after a daemon accepted it, the
    goroutines of a node are counted by its flag and the recoveries, no timer is ever set, and every step
    is a step of the machine of modes (interpretations of \<open>invariant_of\<close> and \<open>simulation\<close>).
  \<^item> Preemption: exactly the weaker pods are victims, nothing else is touched, no core is loaded beyond
    the threshold by a migration, and the usage of a core is the sum of its registrations as long as
    no registration is overwritten (the locale \<open>core_ledger\<close>).
  \<^item> Pressure: one round makes at most one degradation and one eviction, on one tier, and a sequence of rounds
    evicts from a node at most one pod for each of its tiers; tiers are a sorted function of the set of pods.
  \<^item> Reconcile, overrun, recovery, settings, webhooks: what each handler sends and changes on each of its
    branches, with the error branches as values; \<open>forgets\<close> of \<open>Reconciler\<close> says what forgetting a pod means,
    \<open>overrun_target\<close> of \<open>Runtime_State\<close> whom a report is about, and \<open>config_target\<close> of \<open>Pod_Mutator\<close> when a pod
    can be configured.
  \<^item> Numbers and text: the float tests are exact integer tests within stated bounds (the locale
    \<open>rounding\<close>), the core set parser inverts printing, and returns except for ranges up to the largest \<open>int\<close>.
  \<^item> Copies: the generated deep copies share nothing with the original (the locale \<open>deep_copier\<close>).
  \<^item> Start-up: the manager is started only after everything before it succeeded.

  \<^bold>\<open>Bounds, loops, fuel.\<close> No definition has fuel. The loops of the program are over lists, but for the
  range loop of \<open>parseCoreSet\<close>, a partial function whose value \<open>None\<close> means that it does not return, and the
  endless loops of the goroutines: the taint thread is given as one round, and the configuration goroutine
  takes the list of its wake-ups. Millicores are 64-bit words, and the counters of the pressure state wrap
  at 64 bits. Properties about floats assume a period below
  2 to the 40 microseconds (12 days), requests below 2 to the 48 and usages below 2 to the 53 millicores; beyond, the
  integers are not all floats and the tests are not exact. The exponents of the float model are not bounded,
  since no value the code computes leaves the normal range.

  \<^bold>\<open>Not modelled.\<close> Logging, and with it the panics of log lines other than the one that is stated; the Go
  memory model: handlers run to their end, so races inside a handler (of which the findings name one) are not
  visible; the error branches of \<open>json.Marshal\<close>, which cannot be taken for the values marshalled; parsing flags, the scheme, the informers and caches of the library, leader election; JSON decoding
  of the overrun request, given as its result; copying of metadata and times (parameters of \<open>Deep_Copy\<close> with
  the contract of a deep copy); \<open>groupversion_info.go\<close>; tests, manifests and scripts.
\<close>

end
